theory Spec2Isabelle
  imports Main "HOL-Library.Sublist" "HOL-Library.Char_ord" "HOL-Library.List_Lexorder"
begin

section \<open>Strings as the source uses them\<close>

text \<open>
  Strings are modelled as \<open>char list\<close>, a character standing for a code unit below
  256. In that range the whitespace of \<open>trim()\<close> and of the regular-expression class
  \<open>\s\<close> is tab, line feed, vertical tab, form feed, carriage return, space and the
  no-break space U+00A0, and \<open>toLowerCase()\<close> folds the letters \<open>A\<close> to \<open>Z\<close> and the
  Latin-1 capitals U+00C0 to U+00DE (without the multiplication sign U+00D7). The \<open>i\<close>
  flag of a pattern of ASCII letters matches the same ASCII letters in either case.
  The order of \<open>sort()\<close> is the lexicographic order of the character codes.
\<close>

definition isSpace :: "char \<Rightarrow> bool" where
  "isSpace c \<longleftrightarrow>
     c \<in> set [CHR 0x09, CHR 0x0A, CHR 0x0B, CHR 0x0C, CHR 0x0D, CHR '' '', CHR 0xA0]"

definition isQuote :: "char \<Rightarrow> bool" where
  "isQuote c \<longleftrightarrow> c = CHR 0x27 \<or> c = CHR 0x22"

definition lowerChar :: "char \<Rightarrow> char" where
  "lowerChar c =
     (let n = (of_char c :: nat)
      in if 65 \<le> n \<and> n \<le> 90 \<or> 192 \<le> n \<and> n \<le> 222 \<and> n \<noteq> 215
         then char_of (n + 32) else c)"

definition toLowerCase :: "string \<Rightarrow> string" where
  "toLowerCase s = map lowerChar s"

definition trim :: "string \<Rightarrow> string" where
  "trim s = rev (dropWhile isSpace (rev (dropWhile isSpace s)))"

text \<open>
  \<open>s.replace(/^['"]|['"]$/g, '')\<close>: a quote at the start is removed, and a quote at the
  end of what is left is removed (the two matches never overlap).
\<close>

definition stripTrailingQuote :: "string \<Rightarrow> string" where
  "stripTrailingQuote s = (if s \<noteq> [] \<and> isQuote (last s) then butlast s else s)"

definition stripQuotes :: "string \<Rightarrow> string" where
  "stripQuotes s =
     (case s of
        [] \<Rightarrow> []
      | c # cs \<Rightarrow> if isQuote c then stripTrailingQuote cs else c # stripTrailingQuote cs)"

text \<open>\<open>s.split(',')\<close>: never the empty array; the empty string gives one empty piece.\<close>

fun splitComma :: "string \<Rightarrow> string list" where
  "splitComma [] = [[]]"
| "splitComma (c # cs) =
     (if c = CHR '','' then [] # splitComma cs
      else (case splitComma cs of [] \<Rightarrow> [[c]] | w # ws \<Rightarrow> (c # w) # ws))"

text \<open>\<open>parts.join(sep)\<close>.\<close>

fun join :: "string \<Rightarrow> string list \<Rightarrow> string" where
  "join sep [] = []"
| "join sep [x] = x"
| "join sep (x # y # ys) = x @ sep @ join sep (y # ys)"

text \<open>\<open>a || b\<close> on strings: the empty string is falsy.\<close>

definition orElse :: "string \<Rightarrow> string \<Rightarrow> string" where
  "orElse a b = (if a = [] then b else a)"

section \<open>The collector: \<open>collectUsedTriples\<close>\<close>

text \<open>
  What \<open>getComputedStyle(el)\<close> gives for an element, and the element tree that the
  \<open>TreeWalker\<close> (\<open>SHOW_ELEMENT\<close>) visits in document order, the root first.
\<close>

record computedStyle =
  fontFamily :: string
  fontStyle :: string
  fontWeight :: string

datatype element = Element computedStyle "element list"

fun treeWalk :: "element \<Rightarrow> computedStyle list" where
  "treeWalk (Element cs kids) = cs # concat (map treeWalk kids)"

text \<open>The prefixes of \<open>/^(serif|sans-serif|monospace|system-ui|ui-)/i\<close>.\<close>

definition genericPrefixes :: "string list" where
  "genericPrefixes = [''serif'', ''sans-serif'', ''monospace'', ''system-ui'', ''ui-'']"

definition genericTest :: "string \<Rightarrow> bool" where
  "genericTest family \<longleftrightarrow> (\<exists>p \<in> set genericPrefixes. prefix p (toLowerCase family))"

text \<open>The two statements \<open>if (weight === 'normal') ...; if (weight === 'bold') ...\<close>.\<close>

definition normalizeWeight :: "string \<Rightarrow> string" where
  "normalizeWeight weight =
     (let w1 = (if weight = ''normal'' then ''400'' else weight)
      in if w1 = ''bold'' then ''700'' else w1)"

definition mkTriple :: "string \<Rightarrow> string \<Rightarrow> string \<Rightarrow> string" where
  "mkTriple family weight style = family @ ''||'' @ weight @ ''||'' @ style"

definition firstFamily :: "string \<Rightarrow> string" where
  "firstFamily ff =
     (case map (\<lambda>s. stripQuotes (trim s)) (splitComma ff) of [] \<Rightarrow> [] | f # _ \<Rightarrow> f)"

text \<open>One pass of the loop body: \<open>None\<close> is \<open>continue\<close>, \<open>Some t\<close> is the triple added.\<close>

definition elementTriple :: "computedStyle \<Rightarrow> string option" where
  "elementTriple cs =
     (let family = firstFamily (fontFamily cs) in
      if family = [] \<or> genericTest family then None
      else
        let style = orElse (trim (orElse (fontStyle cs) ''normal'')) ''normal'';
            weight = normalizeWeight (trim (orElse (fontWeight cs) ''400''))
        in Some (mkTriple family weight style))"

text \<open>A JavaScript \<open>Set\<close> of strings: insertion order, no duplicates.\<close>

definition setAdd :: "string list \<Rightarrow> string \<Rightarrow> string list" where
  "setAdd ts t = (if t \<in> set ts then ts else ts @ [t])"

definition collectStep :: "string list \<Rightarrow> computedStyle \<Rightarrow> string list" where
  "collectStep ts cs = (case elementTriple cs of None \<Rightarrow> ts | Some t \<Rightarrow> setAdd ts t)"

definition collectUsedTriples :: "element \<Rightarrow> string list" where
  "collectUsedTriples root = foldl collectStep [] (treeWalk root)"

section \<open>The environment and the three caches\<close>

text \<open>
  A response of \<open>fetch\<close>: \<open>res.ok\<close>, \<open>res.status\<close>, and the data URL that the
  \<open>FileReader\<close> produces from \<open>res.blob()\<close>. The fetch is taken to settle with a
  response and the reader to finish.
\<close>

record response =
  ok :: bool
  status :: nat
  blobDataUrl :: string

datatype cacheName = FontDataUrlCache | InlinedFaceCache | EmbedCssForTriplesCache

text \<open>The effects a call has on the outside world and on the caches, in the order they happen.\<close>

datatype event =
    CacheGet cacheName string
  | CacheSet cacheName string string
  | Fetch string response
  | ReadStyleSheets

text \<open>
  The declared properties of a style declaration; \<open>getPropertyValue\<close> gives the empty
  string for a property that is not declared.
\<close>

type_synonym cssStyle = "(string \<times> string) list"

definition getPropertyValue :: "cssStyle \<Rightarrow> string \<Rightarrow> string" where
  "getPropertyValue st name = (case map_of st name of None \<Rightarrow> [] | Some v \<Rightarrow> v)"

datatype cssRule = FontFaceRule cssStyle | OtherRule

text \<open>Reading \<open>cssRules\<close> of a cross-origin sheet throws; the source catches that.\<close>

datatype styleSheet = Readable "cssRule list" | CrossOrigin

text \<open>
  The document's style sheets and the network. What a fetch answers may depend on
  everything that happened before it. The three caches are the module's state; a call
  runs to its end before the next one starts.
\<close>

record env =
  styleSheets :: "styleSheet list"
  fetch :: "event list \<Rightarrow> string \<Rightarrow> response"

record state =
  fontDataUrlCache :: "string \<rightharpoonup> string"
  inlinedFaceCache :: "string \<rightharpoonup> string"
  embedCssForTriplesCache :: "string \<rightharpoonup> string"
  effects :: "event list"

datatype error = FetchError string nat

definition emit :: "event \<Rightarrow> state \<Rightarrow> state" where
  "emit e s = s\<lparr>effects := effects s @ [e]\<rparr>"

text \<open>\<open>if (cached) return cached\<close>: \<open>undefined\<close> and the empty string are both falsy.\<close>

definition hit :: "string option \<Rightarrow> string option" where
  "hit v = (case v of None \<Rightarrow> None | Some c \<Rightarrow> if c = [] then None else Some c)"

section \<open>\<open>urlToDataUrl\<close>\<close>

definition urlToDataUrl :: "env \<Rightarrow> string \<Rightarrow> state \<Rightarrow> (error + string) \<times> state" where
  "urlToDataUrl env u s =
     (let s1 = emit (CacheGet FontDataUrlCache u) s in
      case hit (fontDataUrlCache s1 u) of
        Some cached \<Rightarrow> (Inr cached, s1)
      | None \<Rightarrow>
          let res = fetch env (effects s1) u;
              s2 = emit (Fetch u res) s1
          in if \<not> ok res then (Inl (FetchError u (status res)), s2)
             else
               let d = blobDataUrl res;
                   s3 = emit (CacheSet FontDataUrlCache u d)
                          (s2\<lparr>fontDataUrlCache := (fontDataUrlCache s2)(u \<mapsto> d)\<rparr>)
               in (Inr d, s3))"

section \<open>The matcher: \<open>getMatchingFontFaceRules\<close>\<close>

text \<open>The key of a font-face rule; \<open>None\<close> is the \<open>continue\<close> on an empty family.\<close>

definition ruleKey :: "cssStyle \<Rightarrow> string option" where
  "ruleKey ff =
     (let family = stripQuotes (trim (getPropertyValue ff ''font-family'')) in
      if family = [] then None
      else
        let style = orElse (trim (orElse (getPropertyValue ff ''font-style'') ''normal'')) ''normal'';
            weight = normalizeWeight (trim (orElse (getPropertyValue ff ''font-weight'') ''400''))
        in Some (toLowerCase (mkTriple family weight style)))"

definition ruleMatches :: "string list \<Rightarrow> cssRule \<Rightarrow> bool" where
  "ruleMatches want rule =
     (case rule of
        OtherRule \<Rightarrow> False
      | FontFaceRule ff \<Rightarrow> (case ruleKey ff of None \<Rightarrow> False | Some key \<Rightarrow> key \<in> set want))"

definition sheetRules :: "styleSheet \<Rightarrow> cssRule list" where
  "sheetRules sheet = (case sheet of CrossOrigin \<Rightarrow> [] | Readable rules \<Rightarrow> rules)"

definition matchingRules :: "styleSheet list \<Rightarrow> string list \<Rightarrow> cssRule list" where
  "matchingRules sheets triples =
     (let want = map toLowerCase triples
      in concat (map (\<lambda>sheet. filter (ruleMatches want) (sheetRules sheet)) sheets))"

definition getMatchingFontFaceRules :: "env \<Rightarrow> string list \<Rightarrow> state \<Rightarrow> cssRule list \<times> state" where
  "getMatchingFontFaceRules env triples s =
     (matchingRules (styleSheets env) triples, emit ReadStyleSheets s)"

section \<open>Source candidates: the pattern of \<open>inlineFontFace\<close>\<close>

text \<open>
  \<open>/url\(([^)]+)\)\s*format\(['"]?([^'"]+)['"]?\)/g\<close>, matched the way a backtracking
  engine does. \<open>matchSrcAt s\<close> tries the pattern at the start of \<open>s\<close> and gives the two
  groups and the text after the match.

  The second group is greedy: it first takes every character up to the next quote (or
  the end). That succeeds when a quote and \<open>)\<close> follow. Otherwise the group gives
  characters back until the character after it is \<open>)\<close>: the group ends before the last
  \<open>)\<close> of the run, and must keep at least one character.
\<close>

definition stripPrefix :: "string \<Rightarrow> string \<Rightarrow> string option" where
  "stripPrefix p s = (if prefix p s then Some (drop (length p) s) else None)"

fun lastParen :: "string \<Rightarrow> (string \<times> string) option" where
  "lastParen [] = None"
| "lastParen (c # cs) =
     (case lastParen cs of
        Some (a, b) \<Rightarrow> Some (c # a, b)
      | None \<Rightarrow> if c = CHR '')'' then Some ([], cs) else None)"

definition closeQuoted :: "string \<Rightarrow> string option" where
  "closeQuoted r = (case r of q # p # rest \<Rightarrow> if p = CHR '')'' then Some rest else None | _ \<Rightarrow> None)"

definition matchFormatBody :: "string \<Rightarrow> (string \<times> string) option" where
  "matchFormatBody r4 =
     (let r5 = (case r4 of [] \<Rightarrow> [] | c # cs \<Rightarrow> if isQuote c then cs else r4);
          run = takeWhile (\<lambda>c. \<not> isQuote c) r5;
          r6 = dropWhile (\<lambda>c. \<not> isQuote c) r5
      in if run = [] then None
         else
           (case closeQuoted r6 of
              Some rest \<Rightarrow> Some (run, rest)
            | None \<Rightarrow>
                (case lastParen run of
                   None \<Rightarrow> None
                 | Some (a, b) \<Rightarrow> if a = [] then None else Some (a, b @ r6))))"

definition matchSrcAt :: "string \<Rightarrow> ((string \<times> string) \<times> string) option" where
  "matchSrcAt s =
     (case stripPrefix ''url('' s of
        None \<Rightarrow> None
      | Some s1 \<Rightarrow>
          let g1 = takeWhile (\<lambda>c. c \<noteq> CHR '')'') s1;
              r1 = dropWhile (\<lambda>c. c \<noteq> CHR '')'') s1
          in if g1 = [] then None
             else
               (case r1 of
                  [] \<Rightarrow> None
                | _ # r2 \<Rightarrow>
                    (case stripPrefix ''format('' (dropWhile isSpace r2) of
                       None \<Rightarrow> None
                     | Some r4 \<Rightarrow>
                         (case matchFormatBody r4 of
                            None \<Rightarrow> None
                          | Some (g2, rest) \<Rightarrow> Some ((g1, g2), rest)))))"

text \<open>
  \<open>src.matchAll(...)\<close>: the pattern is tried at each position from left to right, and
  the search goes on after the end of a match.
\<close>

function matchAllSrc :: "string \<Rightarrow> (string \<times> string) list" where
  "matchAllSrc s =
     (case matchSrcAt s of
        Some (m, rest) \<Rightarrow> m # matchAllSrc rest
      | None \<Rightarrow> (case s of [] \<Rightarrow> [] | _ # cs \<Rightarrow> matchAllSrc cs))"
  by pat_completeness auto
termination
proof (relation "measure length")
  show "wf (measure length)" by simp
next
  fix s :: string and x :: "(string \<times> string) \<times> string" and m rest
  assume "matchSrcAt s = Some x" and "(m, rest) = x"
  then have m: "matchSrcAt s = Some (m, rest)" by simp
  have paren: "length a + length b < length r" if "lastParen r = Some (a, b)" for r a b
    using that by (induction r arbitrary: a b) (auto split: option.splits if_splits)
  have body: "length rest' < length r4" if b: "matchFormatBody r4 = Some (g2, rest')" for r4 g2 rest'
  proof -
    define r5 where "r5 = (case r4 of [] \<Rightarrow> [] | c # cs \<Rightarrow> if isQuote c then cs else r4)"
    define run where "run = takeWhile (\<lambda>c. \<not> isQuote c) r5"
    define r6 where "r6 = dropWhile (\<lambda>c. \<not> isQuote c) r5"
    have l5: "length r5 \<le> length r4"
      by (simp add: r5_def split: list.splits)
    have l56: "length run + length r6 = length r5"
      unfolding run_def r6_def by (metis length_append takeWhile_dropWhile_id)
    from b have "run \<noteq> []"
      by (auto simp: matchFormatBody_def Let_def r5_def run_def split: if_splits)
    with b have
      "closeQuoted r6 = Some rest' \<or> (\<exists>a b. lastParen run = Some (a, b) \<and> rest' = b @ r6)"
      by (auto simp: matchFormatBody_def Let_def r5_def run_def r6_def
          split: if_splits option.splits)
    then show ?thesis
    proof
      assume "closeQuoted r6 = Some rest'"
      then have "length rest' < length r6"
        by (auto simp: closeQuoted_def split: list.splits if_splits)
      with l5 l56 show ?thesis by simp
    next
      assume "\<exists>a b. lastParen run = Some (a, b) \<and> rest' = b @ r6"
      then obtain a b where ab: "lastParen run = Some (a, b)" "rest' = b @ r6" by blast
      from paren [OF ab(1)] ab(2) l5 l56 show ?thesis by simp
    qed
  qed
  from m obtain s1 c r2 r4 g2 where
    s1: "stripPrefix ''url('' s = Some s1"
    and r2: "dropWhile (\<lambda>c. c \<noteq> CHR '')'') s1 = c # r2"
    and r4: "stripPrefix ''format('' (dropWhile isSpace r2) = Some r4"
    and fb: "matchFormatBody r4 = Some (g2, rest)"
    by (auto simp: matchSrcAt_def Let_def split: option.splits if_splits list.splits)
  from s1 have "length s1 \<le> length s"
    by (auto simp: stripPrefix_def split: if_splits)
  moreover have "length (dropWhile (\<lambda>c. c \<noteq> CHR '')'') s1) \<le> length s1"
    by (rule length_dropWhile_le)
  with r2 have "length r2 \<le> length s1" by simp
  moreover from r4 have "length r4 \<le> length (dropWhile isSpace r2)"
    by (auto simp: stripPrefix_def split: if_splits)
  moreover have "length (dropWhile isSpace r2) \<le> length r2"
    by (rule length_dropWhile_le)
  moreover note body [OF fb]
  ultimately show "(rest, s) \<in> measure length" by simp
next
  fix s :: string and c cs
  assume "s = c # cs"
  then show "(cs, s) \<in> measure length" by simp
qed

declare matchAllSrc.simps [simp del]

record candidate =
  url :: string
  format :: string

definition parseSrc :: "string \<Rightarrow> candidate list" where
  "parseSrc src =
     map (\<lambda>(g1, g2). \<lparr>url = stripQuotes g1, format = toLowerCase g2\<rparr>) (matchAllSrc src)"

text \<open>
  The same pattern described by the strings it matches, without a matching order:
  \<open>url(\<close>, one or more characters other than \<open>)\<close>, \<open>)\<close>, whitespace,
  \<open>format(\<close>, an optional quote, one or more characters that are no quotes, an
  optional quote, \<open>)\<close>. \<open>containsUrlFormat src\<close> says that some part of \<open>src\<close> is
  such a string.
\<close>

definition optQuote :: "string \<Rightarrow> bool" where
  "optQuote q \<longleftrightarrow> q = [] \<or> (\<exists>c. q = [c] \<and> isQuote c)"

definition matchesPattern :: "string \<Rightarrow> string \<Rightarrow> string \<Rightarrow> bool" where
  "matchesPattern m g1 g2 \<longleftrightarrow>
     (\<exists>ws q1 q2.
        m = ''url('' @ g1 @ '')'' @ ws @ ''format('' @ q1 @ g2 @ q2 @ '')''
        \<and> g1 \<noteq> [] \<and> CHR '')'' \<notin> set g1
        \<and> (\<forall>c \<in> set ws. isSpace c)
        \<and> optQuote q1 \<and> g2 \<noteq> [] \<and> (\<forall>c \<in> set g2. \<not> isQuote c) \<and> optQuote q2)"

definition containsUrlFormat :: "string \<Rightarrow> bool" where
  "containsUrlFormat src \<longleftrightarrow> (\<exists>pre m post g1 g2. src = pre @ m @ post \<and> matchesPattern m g1 g2)"

section \<open>\<open>inlineFontFace\<close>\<close>

text \<open>\<open>urls.find((u) => u.format.includes('woff2')) ?? urls[0]\<close>; \<open>None\<close> is \<open>undefined\<close>.\<close>

definition pick :: "candidate list \<Rightarrow> candidate option" where
  "pick urls =
     (case find (\<lambda>u. sublist ''woff2'' (format u)) urls of
        Some u \<Rightarrow> Some u
      | None \<Rightarrow> (case urls of [] \<Rightarrow> None | u # _ \<Rightarrow> Some u))"

definition faceCacheKey :: "cssStyle \<Rightarrow> string" where
  "faceCacheKey rule =
     (let family = trim (getPropertyValue rule ''font-family'');
          weight = trim (orElse (getPropertyValue rule ''font-weight'') ''400'');
          style = trim (orElse (getPropertyValue rule ''font-style'') ''normal'');
          uRange = trim (orElse (getPropertyValue rule ''unicode-range'') [])
      in family @ ''||'' @ weight @ ''||'' @ style @ ''||'' @ uRange)"

definition renderFontFace :: "string \<Rightarrow> string \<Rightarrow> string \<Rightarrow> string \<Rightarrow> string \<Rightarrow> string" where
  "renderFontFace family style weight uRange dataUrl =
     ''@font-face{'' @
     ''font-family:'' @ family @ '';'' @
     ''font-style:'' @ orElse style ''normal'' @ '';'' @
     ''font-weight:'' @ orElse weight ''400'' @ '';'' @
     (if uRange \<noteq> [] then ''unicode-range:'' @ uRange @ '';'' else []) @
     ''src:url('' @ dataUrl @ '') format('woff2');'' @
     ''font-display:block;'' @
     ''}''"

definition inlineFontFace :: "env \<Rightarrow> cssStyle \<Rightarrow> state \<Rightarrow> (error + string option) \<times> state" where
  "inlineFontFace env rule s =
     (let family = trim (getPropertyValue rule ''font-family'');
          weight = trim (orElse (getPropertyValue rule ''font-weight'') ''400'');
          style = trim (orElse (getPropertyValue rule ''font-style'') ''normal'');
          uRange = trim (orElse (getPropertyValue rule ''unicode-range'') []);
          cacheKey = family @ ''||'' @ weight @ ''||'' @ style @ ''||'' @ uRange;
          s1 = emit (CacheGet InlinedFaceCache cacheKey) s
      in case hit (inlinedFaceCache s1 cacheKey) of
           Some cached \<Rightarrow> (Inr (Some cached), s1)
         | None \<Rightarrow>
             (case pick (parseSrc (getPropertyValue rule ''src'')) of
                None \<Rightarrow> (Inr None, s1)
              | Some p \<Rightarrow>
                  (case urlToDataUrl env (url p) s1 of
                     (Inl e, s2) \<Rightarrow> (Inl e, s2)
                   | (Inr dataUrl, s2) \<Rightarrow>
                       let css = renderFontFace family style weight uRange dataUrl;
                           s3 = emit (CacheSet InlinedFaceCache cacheKey css)
                                  (s2\<lparr>inlinedFaceCache := (inlinedFaceCache s2)(cacheKey \<mapsto> css)\<rparr>)
                       in (Inr (Some css), s3))))"

section \<open>\<open>buildFontEmbedCSS\<close>\<close>

text \<open>\<open>if (css) parts.push(css)\<close>: \<open>null\<close> and the empty string are not pushed.\<close>

definition pushIfTruthy :: "string list \<Rightarrow> string option \<Rightarrow> string list" where
  "pushIfTruthy parts css =
     (case css of None \<Rightarrow> parts | Some c \<Rightarrow> if c = [] then parts else parts @ [c])"

text \<open>
  The loop over the matched rules. Rules other than font-face rules are never in the
  list; the loop body sees the rule's style declaration.
\<close>

definition ruleStyle :: "cssRule \<Rightarrow> cssStyle" where
  "ruleStyle r = (case r of FontFaceRule ff \<Rightarrow> ff | OtherRule \<Rightarrow> [])"

fun inlineAll :: "env \<Rightarrow> cssRule list \<Rightarrow> string list \<Rightarrow> state \<Rightarrow> (error + string list) \<times> state" where
  "inlineAll env [] parts s = (Inr parts, s)"
| "inlineAll env (r # rs) parts s =
     (case inlineFontFace env (ruleStyle r) s of
        (Inl e, s1) \<Rightarrow> (Inl e, s1)
      | (Inr css, s1) \<Rightarrow> inlineAll env rs (pushIfTruthy parts css) s1)"

definition triplesKey :: "string list \<Rightarrow> string" where
  "triplesKey triples = join ''|'' (sort triples)"

definition buildFontEmbedCSS :: "env \<Rightarrow> element \<Rightarrow> state \<Rightarrow> (error + string) \<times> state" where
  "buildFontEmbedCSS env root s =
     (let triples = collectUsedTriples root in
      if triples = [] then (Inr [], s)
      else
        let key = triplesKey triples;
            s1 = emit (CacheGet EmbedCssForTriplesCache key) s
        in case hit (embedCssForTriplesCache s1 key) of
             Some cached \<Rightarrow> (Inr cached, s1)
           | None \<Rightarrow>
               (case getMatchingFontFaceRules env triples s1 of
                  (rules, s2) \<Rightarrow>
                    (case inlineAll env rules [] s2 of
                       (Inl e, s3) \<Rightarrow> (Inl e, s3)
                     | (Inr parts, s3) \<Rightarrow>
                         let result = join [CHR 0x0A] parts;
                             s4 = emit (CacheSet EmbedCssForTriplesCache key result)
                                    (s3\<lparr>embedCssForTriplesCache :=
                                          (embedCssForTriplesCache s3)(key \<mapsto> result)\<rparr>)
                         in (Inr result, s4))))"

text \<open>The caches when the module is loaded, before any call.\<close>

definition initialState :: state where
  "initialState =
     \<lparr>fontDataUrlCache = Map.empty, inlinedFaceCache = Map.empty,
      embedCssForTriplesCache = Map.empty, effects = []\<rparr>"

section \<open>Predicates on effects\<close>

text \<open>A fetch that was answered with a success status; events other than fetches count as fine.\<close>

definition isOkEvent :: "event \<Rightarrow> bool" where
  "isOkEvent e = (case e of Fetch u res \<Rightarrow> ok res | _ \<Rightarrow> True)"

text \<open>No fetch at all among the events.\<close>

definition isNoFetch :: "event \<Rightarrow> bool" where
  "isNoFetch e = (case e of Fetch u res \<Rightarrow> False | _ \<Rightarrow> True)"

definition allFetchesOk :: "event list \<Rightarrow> bool" where
  "allFetchesOk evs = list_all isOkEvent evs"

definition noFetch :: "event list \<Rightarrow> bool" where
  "noFetch evs = list_all isNoFetch evs"

text \<open>
  How a call may end: either every fetch it issued was answered with success, or it
  raised the error of a failed fetch, which then is the last thing it did.
\<close>

definition failedAt :: "event list \<Rightarrow> error \<Rightarrow> bool" where
  "failedAt evs e \<longleftrightarrow>
     (\<exists>evs0 u res. evs = evs0 @ [Fetch u res] \<and> allFetchesOk evs0 \<and> \<not> ok res
        \<and> e = FetchError u (status res))"

definition disciplined :: "event list \<Rightarrow> error + 'a \<Rightarrow> bool" where
  "disciplined evs r = (case r of Inr _ \<Rightarrow> allFetchesOk evs | Inl e \<Rightarrow> failedAt evs e)"

text \<open>
  The cache lookup at the start of \<open>inlineFontFace\<close>, and a rule for which
  \<open>inlineFontFace\<close> gives \<open>null\<close>: nothing truthy cached, no candidate.
\<close>

definition faceGet :: "cssRule \<Rightarrow> event" where
  "faceGet r = CacheGet InlinedFaceCache (faceCacheKey (ruleStyle r))"

definition notInlinable :: "(string \<rightharpoonup> string) \<Rightarrow> cssRule \<Rightarrow> bool" where
  "notInlinable cache r \<longleftrightarrow>
     hit (cache (faceCacheKey (ruleStyle r))) = None
     \<and> pick (parseSrc (getPropertyValue (ruleStyle r) ''src'')) = None"

text \<open>The text that \<open>inlineFontFace\<close> renders for a declaration, given the data URL.\<close>

definition ruleCss :: "cssStyle \<Rightarrow> string \<Rightarrow> string" where
  "ruleCss rule dataUrl =
     renderFontFace (trim (getPropertyValue rule ''font-family''))
       (trim (orElse (getPropertyValue rule ''font-style'') ''normal''))
       (trim (orElse (getPropertyValue rule ''font-weight'') ''400''))
       (trim (orElse (getPropertyValue rule ''unicode-range'') []))
       dataUrl"

section \<open>Example inputs\<close>

text \<open>
  The end-to-end example: one element with family \<open>Inter\<close>, weight 400, style normal,
  and one font-face rule for it that lists a woff source before a woff2 source. The
  style sheets also hold a cross-origin sheet and a rule that is no font-face rule.
\<close>

definition interRoot :: element where
  "interRoot = Element \<lparr>fontFamily = ''Inter, sans-serif'', fontStyle = ''normal'', fontWeight = ''400''\<rparr>
     [Element \<lparr>fontFamily = ''sans-serif'', fontStyle = ''normal'', fontWeight = ''400''\<rparr> []]"

definition interRule :: cssStyle where
  "interRule =
     [(''font-family'', ''Inter''), (''font-weight'', ''400''), (''font-style'', ''normal''),
      (''src'', ''url(https://example/a.woff) format('woff'), url(https://example/a.woff2) format('woff2')'')]"

definition okFetch :: "event list \<Rightarrow> string \<Rightarrow> response" where
  "okFetch h u = \<lparr>ok = True, status = 200, blobDataUrl = ''data:'' @ u\<rparr>"

definition notFound :: "event list \<Rightarrow> string \<Rightarrow> response" where
  "notFound h u = \<lparr>ok = False, status = 404, blobDataUrl = []\<rparr>"

definition exampleEnv :: env where
  "exampleEnv =
     \<lparr>styleSheets = [CrossOrigin, Readable [OtherRule, FontFaceRule interRule]], fetch = okFetch\<rparr>"

definition failingEnv :: env where
  "failingEnv =
     \<lparr>styleSheets = [CrossOrigin, Readable [OtherRule, FontFaceRule interRule]], fetch = notFound\<rparr>"

definition interCss :: string where
  "interCss = ''@font-face{font-family:Inter;font-style:normal;font-weight:400;src:url(data:https://example/a.woff2) format('woff2');font-display:block;}''"

text \<open>A rule for the same family whose \<open>src\<close> has no format hint, and a rule with a truetype source.\<close>

definition noFormatRule :: cssStyle where
  "noFormatRule = [(''font-family'', ''Inter''), (''src'', ''url(https://example/a.woff)'')]"

definition ttfRule :: cssStyle where
  "ttfRule = [(''font-family'', ''Inter''), (''src'', ''url(https://example/a.ttf) format('truetype')'')]"

definition ttfCss :: string where
  "ttfCss = ''@font-face{font-family:Inter;font-style:normal;font-weight:400;src:url(data:https://example/a.ttf) format('woff2');font-display:block;}''"

definition noFormatEnv :: env where
  "noFormatEnv = \<lparr>styleSheets = [Readable [FontFaceRule noFormatRule]], fetch = okFetch\<rparr>"

definition twoRuleEnv :: env where
  "twoRuleEnv =
     \<lparr>styleSheets = [Readable [FontFaceRule interRule, FontFaceRule noFormatRule]], fetch = okFetch\<rparr>"

text \<open>A rule that declares neither style nor weight, with a unicode range and a woff source.\<close>

definition latinRule :: cssStyle where
  "latinRule =
     [(''font-family'', ''Inter''), (''unicode-range'', ''U+0000-00FF''),
      (''src'', ''url(https://example/latin.woff) format('woff')'')]"

definition latinCss :: string where
  "latinCss = ''@font-face{font-family:Inter;font-style:normal;font-weight:400;unicode-range:U+0000-00FF;src:url(data:https://example/latin.woff) format('woff2');font-display:block;}''"

text \<open>Two elements with the weight keywords, and rules that declare the numbers (and the reverse).\<close>

definition keywordRoot :: element where
  "keywordRoot = Element \<lparr>fontFamily = ''Inter'', fontStyle = ''normal'', fontWeight = ''normal''\<rparr>
     [Element \<lparr>fontFamily = ''Roboto'', fontStyle = ''italic'', fontWeight = ''700''\<rparr> []]"

definition inter400 :: cssStyle where
  "inter400 = [(''font-family'', ''Inter''), (''font-weight'', ''400'')]"

definition robotoBold :: cssStyle where
  "robotoBold = [(''font-family'', ''Roboto''), (''font-weight'', ''bold''), (''font-style'', ''italic'')]"

definition keywordSheets :: "styleSheet list" where
  "keywordSheets = [Readable [FontFaceRule inter400, FontFaceRule robotoBold]]"

text \<open>A subtree that uses \<open>Roboto\<close> in weight 400 only.\<close>

definition robotoRoot :: element where
  "robotoRoot = Element \<lparr>fontFamily = ''Roboto'', fontStyle = ''italic'', fontWeight = ''400''\<rparr> []"

text \<open>States in which a cache holds the empty string under a key.\<close>

definition emptyUrlState :: state where
  "emptyUrlState = initialState\<lparr>fontDataUrlCache := [''https://example/a.woff2'' \<mapsto> []]\<rparr>"

definition emptyFaceState :: state where
  "emptyFaceState = initialState\<lparr>inlinedFaceCache := [''Inter||400||normal||'' \<mapsto> []]\<rparr>"

section \<open>Facts about the string helpers and the collector\<close>

lemma toLowerCase_mkTriple:
  "toLowerCase (mkTriple f w st) = mkTriple (toLowerCase f) (toLowerCase w) (toLowerCase st)"
  by (simp add: mkTriple_def toLowerCase_def lowerChar_def)

lemma toLowerCase_Nil_iff: "toLowerCase s = [] \<longleftrightarrow> s = []"
  by (simp add: toLowerCase_def)

lemma foldl_collectStep_set:
  "set (foldl collectStep acc xs) = set acc \<union> {t. \<exists>cs \<in> set xs. elementTriple cs = Some t}"
  by (induction xs arbitrary: acc) (auto simp: collectStep_def setAdd_def split: option.splits)

lemma foldl_collectStep_distinct:
  "distinct acc \<Longrightarrow> distinct (foldl collectStep acc xs)"
  by (induction xs arbitrary: acc) (auto simp: collectStep_def setAdd_def split: option.splits)

lemma collectUsedTriples_set:
  "set (collectUsedTriples root) = {t. \<exists>cs \<in> set (treeWalk root). elementTriple cs = Some t}"
  by (simp add: collectUsedTriples_def foldl_collectStep_set)

lemma collectUsedTriples_distinct: "distinct (collectUsedTriples root)"
  by (simp add: collectUsedTriples_def foldl_collectStep_distinct)

lemma elementTriple_None_iff:
  "elementTriple cs = None \<longleftrightarrow>
     firstFamily (fontFamily cs) = [] \<or> genericTest (firstFamily (fontFamily cs))"
  by (simp add: elementTriple_def Let_def)

lemma elementTriple_Some_iff:
  "elementTriple cs = Some t \<longleftrightarrow>
     firstFamily (fontFamily cs) \<noteq> [] \<and> \<not> genericTest (firstFamily (fontFamily cs))
     \<and> t = mkTriple (firstFamily (fontFamily cs))
               (normalizeWeight (trim (orElse (fontWeight cs) ''400'')))
               (orElse (trim (orElse (fontStyle cs) ''normal'')) ''normal'')"
  by (auto simp: elementTriple_def Let_def)

section \<open>The empty variant set\<close>

text \<open>
  C8. When the collected variant set of a subtree is empty, \<open>buildFontEmbedCSS\<close> returns
  the empty string and leaves the state as it was: the list of effects is the same, so
  no cache was read or written, the style sheets were not read and nothing was fetched.
  The statement holds for every environment and every content of the caches.
\<close>

theorem build_empty_variants:
  "collectUsedTriples root = [] \<Longrightarrow> buildFontEmbedCSS env root s = (Inr [], s)"
  by (simp add: buildFontEmbedCSS_def)

text \<open>A subtree of two elements that both resolve to \<open>sans-serif\<close>.\<close>

theorem build_empty_variants_witness:
  "collectUsedTriples
     (Element \<lparr>fontFamily = ''sans-serif'', fontStyle = ''normal'', fontWeight = ''400''\<rparr>
        [Element \<lparr>fontFamily = ''sans-serif'', fontStyle = ''italic'', fontWeight = ''700''\<rparr> []]) = []
   \<and> buildFontEmbedCSS \<lparr>styleSheets = [], fetch = (\<lambda>h u. \<lparr>ok = True, status = 200, blobDataUrl = u\<rparr>)\<rparr>
       (Element \<lparr>fontFamily = ''sans-serif'', fontStyle = ''normal'', fontWeight = ''400''\<rparr>
          [Element \<lparr>fontFamily = ''sans-serif'', fontStyle = ''italic'', fontWeight = ''700''\<rparr> []])
       initialState = (Inr [], initialState)"
proof -
  let ?root = "Element \<lparr>fontFamily = ''sans-serif'', fontStyle = ''normal'', fontWeight = ''400''\<rparr>
        [Element \<lparr>fontFamily = ''sans-serif'', fontStyle = ''italic'', fontWeight = ''700''\<rparr> []]"
  have h: "collectUsedTriples ?root = []"
    by code_simp
  from h build_empty_variants [OF h] show ?thesis by simp
qed

section \<open>Generic families\<close>

text \<open>
  C3. An element's contribution is to be skipped exactly when its first family is one
  of the generic keywords \<open>serif\<close>, \<open>sans-serif\<close>, \<open>monospace\<close>, \<open>system-ui\<close> or
  begins with \<open>ui-\<close>; a family that merely begins with the letters of a keyword is to
  contribute a variant. The code does otherwise. The pattern of line 40 has no end
  anchor, so all five alternatives are tested as prefixes (\<open>elementTriple_None_iff\<close>):
  the first family \<open>Serifa\<close> (or \<open>serifa\<close>) is none of the keywords and does not begin
  with \<open>ui-\<close>, and yet the element is skipped and the subtree that uses it has no
  variant at all, where \<open>Inter\<close> in its place gives one.
\<close>

theorem generic_prefix_skips_serifa:
  "firstFamily ''Serifa, serif'' = ''Serifa''
   \<and> toLowerCase ''Serifa'' \<notin> set [''serif'', ''sans-serif'', ''monospace'', ''system-ui'']
   \<and> \<not> prefix ''ui-'' (toLowerCase ''Serifa'')
   \<and> elementTriple \<lparr>fontFamily = ''Serifa, serif'', fontStyle = ''normal'', fontWeight = ''400''\<rparr> = None
   \<and> elementTriple \<lparr>fontFamily = ''serifa, serif'', fontStyle = ''normal'', fontWeight = ''400''\<rparr> = None
   \<and> collectUsedTriples
         (Element \<lparr>fontFamily = ''Serifa, serif'', fontStyle = ''normal'', fontWeight = ''400''\<rparr> []) = []
   \<and> elementTriple \<lparr>fontFamily = ''Inter, serif'', fontStyle = ''normal'', fontWeight = ''400''\<rparr>
       = Some ''Inter||400||normal''"
  by code_simp

section \<open>Variant identity\<close>

lemma matchingRules_lowercase:
  assumes "toLowerCase ` set ts = toLowerCase ` set ts'"
  shows "matchingRules sheets ts = matchingRules sheets ts'"
proof -
  have "ruleMatches (map toLowerCase ts) = ruleMatches (map toLowerCase ts')"
    using assms by (auto simp: ruleMatches_def fun_eq_iff split: cssRule.splits option.splits)
  then show ?thesis by (simp add: matchingRules_def)
qed


text \<open>
  C4, as the claim states it, fails: two elements whose triples differ only in letter
  case give two elements of the collected set, and the cache keys of a subtree that
  uses \<open>Inter\<close> and of one that uses \<open>inter\<close> differ.
\<close>

theorem variant_case_counterexample:
  "collectUsedTriples
     (Element \<lparr>fontFamily = ''Inter'', fontStyle = ''normal'', fontWeight = ''400''\<rparr>
        [Element \<lparr>fontFamily = ''inter'', fontStyle = ''normal'', fontWeight = ''400''\<rparr> []])
     = [''Inter||400||normal'', ''inter||400||normal'']
   \<and> toLowerCase ''Inter||400||normal'' = toLowerCase ''inter||400||normal''
   \<and> triplesKey (collectUsedTriples
         (Element \<lparr>fontFamily = ''Inter'', fontStyle = ''normal'', fontWeight = ''400''\<rparr> []))
      \<noteq> triplesKey (collectUsedTriples
         (Element \<lparr>fontFamily = ''inter'', fontStyle = ''normal'', fontWeight = ''400''\<rparr> []))"
  by code_simp

text \<open>
  C4, amended. In the collected set a variant is the string \<open>family||weight||style\<close>
  as it is, and two variants are the same when the strings are equal: the set holds
  each triple that some visited element gives, once. Lower case is the matcher's
  business: two collections of triples with the same lower-case keys match the same
  font-face rules.
\<close>

theorem variants_exact_matcher_lowercase:
  "distinct (collectUsedTriples root)
   \<and> set (collectUsedTriples root) = {t. \<exists>cs \<in> set (treeWalk root). elementTriple cs = Some t}
   \<and> (set (map toLowerCase ts) = set (map toLowerCase ts') \<longrightarrow>
        matchingRules sheets ts = matchingRules sheets ts')"
  using matchingRules_lowercase [of ts ts' sheets]
  by (simp add: collectUsedTriples_distinct collectUsedTriples_set)

text \<open>The triples of \<open>Inter\<close> and of \<open>inter\<close> match the same rule of the example.\<close>

theorem variants_exact_matcher_lowercase_witness:
  "set (map toLowerCase [''Inter||400||normal'']) = set (map toLowerCase [''inter||400||normal''])
   \<and> matchingRules (styleSheets exampleEnv) [''Inter||400||normal'']
       = matchingRules (styleSheets exampleEnv) [''inter||400||normal'']
   \<and> distinct (collectUsedTriples interRoot)"
proof -
  have h: "set (map toLowerCase [''Inter||400||normal''])
           = set (map toLowerCase [''inter||400||normal''])"
    by code_simp
  from variants_exact_matcher_lowercase
         [of interRoot "[''Inter||400||normal'']" "[''inter||400||normal'']" "styleSheets exampleEnv"] h
  show ?thesis by blast
qed

section \<open>Weight normalization\<close>

lemma normalizeWeight_pairs:
  "(we, wr) \<in> set [(''normal'', ''400''), (''400'', ''normal''), (''bold'', ''700''), (''700'', ''bold'')]
   \<Longrightarrow> normalizeWeight we = normalizeWeight wr"
  by (auto simp: normalizeWeight_def)

lemma ruleKey_Some_iff:
  "ruleKey ff = Some key \<longleftrightarrow>
     stripQuotes (trim (getPropertyValue ff ''font-family'')) \<noteq> []
     \<and> key = toLowerCase (mkTriple (stripQuotes (trim (getPropertyValue ff ''font-family'')))
                 (normalizeWeight (trim (orElse (getPropertyValue ff ''font-weight'') ''400'')))
                 (orElse (trim (orElse (getPropertyValue ff ''font-style'') ''normal'')) ''normal''))"
  by (auto simp: ruleKey_def Let_def)

lemma matchingRules_member_iff:
  "r \<in> set (matchingRules sheets ts) \<longleftrightarrow>
     (\<exists>rules. Readable rules \<in> set sheets \<and> r \<in> set rules) \<and> ruleMatches (map toLowerCase ts) r"
proof -
  have "(\<exists>sheet \<in> set sheets. r \<in> set (sheetRules sheet))
        \<longleftrightarrow> (\<exists>rules. Readable rules \<in> set sheets \<and> r \<in> set rules)"
  proof
    assume "\<exists>sheet \<in> set sheets. r \<in> set (sheetRules sheet)"
    then obtain sheet where s: "sheet \<in> set sheets" "r \<in> set (sheetRules sheet)" by blast
    then show "\<exists>rules. Readable rules \<in> set sheets \<and> r \<in> set rules"
      by (cases sheet) (auto simp: sheetRules_def)
  next
    assume "\<exists>rules. Readable rules \<in> set sheets \<and> r \<in> set rules"
    then obtain rules where "Readable rules \<in> set sheets" "r \<in> set rules" by blast
    then show "\<exists>sheet \<in> set sheets. r \<in> set (sheetRules sheet)"
      by (intro bexI [of _ "Readable rules"]) (simp_all add: sheetRules_def)
  qed
  then show ?thesis
    by (auto simp: matchingRules_def)
qed

lemma fontFace_matched_iff:
  "FontFaceRule ff \<in> set (matchingRules sheets (collectUsedTriples root)) \<longleftrightarrow>
     (\<exists>rules. Readable rules \<in> set sheets \<and> FontFaceRule ff \<in> set rules)
     \<and> stripQuotes (trim (getPropertyValue ff ''font-family'')) \<noteq> []
     \<and> (\<exists>cs \<in> set (treeWalk root).
           firstFamily (fontFamily cs) \<noteq> [] \<and> \<not> genericTest (firstFamily (fontFamily cs))
           \<and> toLowerCase (mkTriple (stripQuotes (trim (getPropertyValue ff ''font-family'')))
                 (normalizeWeight (trim (orElse (getPropertyValue ff ''font-weight'') ''400'')))
                 (orElse (trim (orElse (getPropertyValue ff ''font-style'') ''normal'')) ''normal''))
             = toLowerCase (mkTriple (firstFamily (fontFamily cs))
                 (normalizeWeight (trim (orElse (fontWeight cs) ''400'')))
                 (orElse (trim (orElse (fontStyle cs) ''normal'')) ''normal'')))"
  (is "?L \<longleftrightarrow> ?S \<and> ?F \<and> ?E")
proof -
  let ?key = "toLowerCase (mkTriple (stripQuotes (trim (getPropertyValue ff ''font-family'')))
                 (normalizeWeight (trim (orElse (getPropertyValue ff ''font-weight'') ''400'')))
                 (orElse (trim (orElse (getPropertyValue ff ''font-style'') ''normal'')) ''normal''))"
  have "ruleMatches (map toLowerCase (collectUsedTriples root)) (FontFaceRule ff)
        \<longleftrightarrow> ?F \<and> ?key \<in> toLowerCase ` set (collectUsedTriples root)"
  proof -
    have "ruleMatches (map toLowerCase (collectUsedTriples root)) (FontFaceRule ff)
          \<longleftrightarrow> (\<exists>key. ruleKey ff = Some key
                 \<and> key \<in> toLowerCase ` set (collectUsedTriples root))"
      by (cases "ruleKey ff") (auto simp: ruleMatches_def)
    then show ?thesis
      unfolding ruleKey_Some_iff by blast
  qed
  moreover have "?key \<in> toLowerCase ` set (collectUsedTriples root) \<longleftrightarrow> ?E"
    unfolding collectUsedTriples_set by (auto simp: elementTriple_Some_iff)
  ultimately show ?thesis
    unfolding matchingRules_member_iff by blast
qed

text \<open>
  C7. The two statements that normalize a weight send \<open>normal\<close> to \<open>400\<close> and
  \<open>bold\<close> to \<open>700\<close> and leave every other string alone. The collector and the matcher
  both apply them (to the trimmed weight, \<open>400\<close> when none is given): a font-face rule
  is among the matched rules exactly when it stands in a readable sheet, its family is
  not empty, and some element of the subtree contributes a variant whose key, built
  with the element's normalized weight, is in lower case the rule's key, built with
  the rule's normalized weight. So a rule is matched when an element contributes a
  variant with the same family and style, ignoring letter case, and the weights of
  element and rule are \<open>normal\<close> and \<open>400\<close>, or \<open>bold\<close> and \<open>700\<close>, either way round.
\<close>

theorem weight_normalization_matches:
  "normalizeWeight ''normal'' = ''400'' \<and> normalizeWeight ''bold'' = ''700''
   \<and> (\<forall>w. w \<noteq> ''normal'' \<and> w \<noteq> ''bold'' \<longrightarrow> normalizeWeight w = w)
   \<and> (FontFaceRule ff \<in> set (matchingRules sheets (collectUsedTriples root)) \<longleftrightarrow>
        (\<exists>rules. Readable rules \<in> set sheets \<and> FontFaceRule ff \<in> set rules)
        \<and> stripQuotes (trim (getPropertyValue ff ''font-family'')) \<noteq> []
        \<and> (\<exists>cs \<in> set (treeWalk root).
              firstFamily (fontFamily cs) \<noteq> [] \<and> \<not> genericTest (firstFamily (fontFamily cs))
              \<and> toLowerCase (mkTriple (stripQuotes (trim (getPropertyValue ff ''font-family'')))
                    (normalizeWeight (trim (orElse (getPropertyValue ff ''font-weight'') ''400'')))
                    (orElse (trim (orElse (getPropertyValue ff ''font-style'') ''normal'')) ''normal''))
                = toLowerCase (mkTriple (firstFamily (fontFamily cs))
                    (normalizeWeight (trim (orElse (fontWeight cs) ''400'')))
                    (orElse (trim (orElse (fontStyle cs) ''normal'')) ''normal''))))
   \<and> (cs \<in> set (treeWalk root)
        \<and> firstFamily (fontFamily cs) \<noteq> [] \<and> \<not> genericTest (firstFamily (fontFamily cs))
        \<and> Readable rules \<in> set sheets \<and> FontFaceRule ff \<in> set rules
        \<and> toLowerCase (stripQuotes (trim (getPropertyValue ff ''font-family'')))
              = toLowerCase (firstFamily (fontFamily cs))
        \<and> toLowerCase (orElse (trim (orElse (getPropertyValue ff ''font-style'') ''normal'')) ''normal'')
              = toLowerCase (orElse (trim (orElse (fontStyle cs) ''normal'')) ''normal'')
        \<and> (trim (orElse (fontWeight cs) ''400''), trim (orElse (getPropertyValue ff ''font-weight'') ''400''))
              \<in> set [(''normal'', ''400''), (''400'', ''normal''), (''bold'', ''700''), (''700'', ''bold'')]
        \<longrightarrow> FontFaceRule ff \<in> set (matchingRules sheets (collectUsedTriples root)))"
proof (intro conjI impI)
  show "normalizeWeight ''normal'' = ''400''" "normalizeWeight ''bold'' = ''700''"
    "\<forall>w. w \<noteq> ''normal'' \<and> w \<noteq> ''bold'' \<longrightarrow> normalizeWeight w = w"
    by (simp_all add: normalizeWeight_def)
next
  show "FontFaceRule ff \<in> set (matchingRules sheets (collectUsedTriples root)) \<longleftrightarrow>
        (\<exists>rules. Readable rules \<in> set sheets \<and> FontFaceRule ff \<in> set rules)
        \<and> stripQuotes (trim (getPropertyValue ff ''font-family'')) \<noteq> []
        \<and> (\<exists>cs \<in> set (treeWalk root).
              firstFamily (fontFamily cs) \<noteq> [] \<and> \<not> genericTest (firstFamily (fontFamily cs))
              \<and> toLowerCase (mkTriple (stripQuotes (trim (getPropertyValue ff ''font-family'')))
                    (normalizeWeight (trim (orElse (getPropertyValue ff ''font-weight'') ''400'')))
                    (orElse (trim (orElse (getPropertyValue ff ''font-style'') ''normal'')) ''normal''))
                = toLowerCase (mkTriple (firstFamily (fontFamily cs))
                    (normalizeWeight (trim (orElse (fontWeight cs) ''400'')))
                    (orElse (trim (orElse (fontStyle cs) ''normal'')) ''normal'')))"
    by (rule fontFace_matched_iff)
next
  assume a: "cs \<in> set (treeWalk root)
        \<and> firstFamily (fontFamily cs) \<noteq> [] \<and> \<not> genericTest (firstFamily (fontFamily cs))
        \<and> Readable rules \<in> set sheets \<and> FontFaceRule ff \<in> set rules
        \<and> toLowerCase (stripQuotes (trim (getPropertyValue ff ''font-family'')))
              = toLowerCase (firstFamily (fontFamily cs))
        \<and> toLowerCase (orElse (trim (orElse (getPropertyValue ff ''font-style'') ''normal'')) ''normal'')
              = toLowerCase (orElse (trim (orElse (fontStyle cs) ''normal'')) ''normal'')
        \<and> (trim (orElse (fontWeight cs) ''400''), trim (orElse (getPropertyValue ff ''font-weight'') ''400''))
              \<in> set [(''normal'', ''400''), (''400'', ''normal''), (''bold'', ''700''), (''700'', ''bold'')]"
  then have famr: "stripQuotes (trim (getPropertyValue ff ''font-family'')) \<noteq> []"
    by (metis toLowerCase_Nil_iff)
  from a have weq: "normalizeWeight (trim (orElse (getPropertyValue ff ''font-weight'') ''400''))
             = normalizeWeight (trim (orElse (fontWeight cs) ''400''))"
    using normalizeWeight_pairs
      [of "trim (orElse (fontWeight cs) ''400'')" "trim (orElse (getPropertyValue ff ''font-weight'') ''400'')"]
    by simp
  have "toLowerCase (mkTriple (stripQuotes (trim (getPropertyValue ff ''font-family'')))
                    (normalizeWeight (trim (orElse (getPropertyValue ff ''font-weight'') ''400'')))
                    (orElse (trim (orElse (getPropertyValue ff ''font-style'') ''normal'')) ''normal''))
                = toLowerCase (mkTriple (firstFamily (fontFamily cs))
                    (normalizeWeight (trim (orElse (fontWeight cs) ''400'')))
                    (orElse (trim (orElse (fontStyle cs) ''normal'')) ''normal''))"
    using a weq by (simp add: toLowerCase_mkTriple)
  with a famr show "FontFaceRule ff \<in> set (matchingRules sheets (collectUsedTriples root))"
    unfolding fontFace_matched_iff by blast
qed

text \<open>
  An element of weight \<open>normal\<close> against a rule of weight \<open>400\<close>, an element of
  weight \<open>700\<close> against a rule of weight \<open>bold\<close>, and an element of weight \<open>400\<close>,
  which the rule of weight \<open>bold\<close> does not match.
\<close>

theorem weight_normalization_matches_witness:
  "FontFaceRule inter400 \<in> set (matchingRules keywordSheets (collectUsedTriples keywordRoot))
   \<and> FontFaceRule robotoBold \<in> set (matchingRules keywordSheets (collectUsedTriples keywordRoot))
   \<and> FontFaceRule robotoBold \<notin> set (matchingRules keywordSheets (collectUsedTriples robotoRoot))"
proof -
  let ?a = "\<lparr>fontFamily = ''Inter'', fontStyle = ''normal'', fontWeight = ''normal''\<rparr>"
  let ?b = "\<lparr>fontFamily = ''Roboto'', fontStyle = ''italic'', fontWeight = ''700''\<rparr>"
  let ?rules = "[FontFaceRule inter400, FontFaceRule robotoBold]"
  have a: "?a \<in> set (treeWalk keywordRoot)
        \<and> firstFamily (fontFamily ?a) \<noteq> [] \<and> \<not> genericTest (firstFamily (fontFamily ?a))
        \<and> Readable ?rules \<in> set keywordSheets \<and> FontFaceRule inter400 \<in> set ?rules
        \<and> toLowerCase (stripQuotes (trim (getPropertyValue inter400 ''font-family'')))
              = toLowerCase (firstFamily (fontFamily ?a))
        \<and> toLowerCase (orElse (trim (orElse (getPropertyValue inter400 ''font-style'') ''normal'')) ''normal'')
              = toLowerCase (orElse (trim (orElse (fontStyle ?a) ''normal'')) ''normal'')
        \<and> (trim (orElse (fontWeight ?a) ''400''), trim (orElse (getPropertyValue inter400 ''font-weight'') ''400''))
              \<in> set [(''normal'', ''400''), (''400'', ''normal''), (''bold'', ''700''), (''700'', ''bold'')]"
    by code_simp
  have b: "?b \<in> set (treeWalk keywordRoot)
        \<and> firstFamily (fontFamily ?b) \<noteq> [] \<and> \<not> genericTest (firstFamily (fontFamily ?b))
        \<and> Readable ?rules \<in> set keywordSheets \<and> FontFaceRule robotoBold \<in> set ?rules
        \<and> toLowerCase (stripQuotes (trim (getPropertyValue robotoBold ''font-family'')))
              = toLowerCase (firstFamily (fontFamily ?b))
        \<and> toLowerCase (orElse (trim (orElse (getPropertyValue robotoBold ''font-style'') ''normal'')) ''normal'')
              = toLowerCase (orElse (trim (orElse (fontStyle ?b) ''normal'')) ''normal'')
        \<and> (trim (orElse (fontWeight ?b) ''400''), trim (orElse (getPropertyValue robotoBold ''font-weight'') ''400''))
              \<in> set [(''normal'', ''400''), (''400'', ''normal''), (''bold'', ''700''), (''700'', ''bold'')]"
    by code_simp
  note ta = weight_normalization_matches [of inter400 keywordSheets keywordRoot ?a ?rules]
  note tb = weight_normalization_matches [of robotoBold keywordSheets keywordRoot ?b ?rules]
  note tc = weight_normalization_matches [of robotoBold keywordSheets robotoRoot ?b ?rules]
  note ma = ta [THEN conjunct2, THEN conjunct2, THEN conjunct2, THEN conjunct2, THEN mp, OF a]
  note mb = tb [THEN conjunct2, THEN conjunct2, THEN conjunct2, THEN conjunct2, THEN mp, OF b]
  have no: "\<not> (\<exists>cs \<in> set (treeWalk robotoRoot).
              firstFamily (fontFamily cs) \<noteq> [] \<and> \<not> genericTest (firstFamily (fontFamily cs))
              \<and> toLowerCase (mkTriple (stripQuotes (trim (getPropertyValue robotoBold ''font-family'')))
                    (normalizeWeight (trim (orElse (getPropertyValue robotoBold ''font-weight'') ''400'')))
                    (orElse (trim (orElse (getPropertyValue robotoBold ''font-style'') ''normal'')) ''normal''))
                = toLowerCase (mkTriple (firstFamily (fontFamily cs))
                    (normalizeWeight (trim (orElse (fontWeight cs) ''400'')))
                    (orElse (trim (orElse (fontStyle cs) ''normal'')) ''normal'')))"
    by code_simp
  from tc [THEN conjunct2, THEN conjunct2, THEN conjunct2, THEN conjunct1] no
  have mc: "FontFaceRule robotoBold \<notin> set (matchingRules keywordSheets (collectUsedTriples robotoRoot))"
    by blast
  from ma mb mc show ?thesis by (intro conjI)
qed

section \<open>Effects of the three stages\<close>

lemma emit_simps [simp]:
  "fontDataUrlCache (emit e s) = fontDataUrlCache s"
  "inlinedFaceCache (emit e s) = inlinedFaceCache s"
  "embedCssForTriplesCache (emit e s) = embedCssForTriplesCache s"
  "effects (emit e s) = effects s @ [e]"
  by (simp_all add: emit_def)

lemma hit_Some_nonempty: "hit v = Some c \<Longrightarrow> c \<noteq> []"
  by (auto simp: hit_def split: option.splits if_splits)

lemma hit_empty [simp]: "hit (Some []) = None" "hit None = None"
  by (simp_all add: hit_def)

lemma hit_nonempty [simp]: "c \<noteq> [] \<Longrightarrow> hit (Some c) = Some c"
  by (simp add: hit_def)

lemma renderFontFace_nonempty: "renderFontFace f st w u d \<noteq> []"
  by (simp add: renderFontFace_def)

lemma allFetchesOk_append [simp]: "allFetchesOk (a @ b) \<longleftrightarrow> allFetchesOk a \<and> allFetchesOk b"
  by (simp add: allFetchesOk_def)

lemma failedAt_append:
  assumes "allFetchesOk evs1" "failedAt evs2 e"
  shows "failedAt (evs1 @ evs2) e"
proof -
  from assms(2) obtain evs0 u res where
    "evs2 = evs0 @ [Fetch u res]" "allFetchesOk evs0" "\<not> ok res" "e = FetchError u (status res)"
    unfolding failedAt_def by blast
  with assms(1) have "evs1 @ evs2 = (evs1 @ evs0) @ [Fetch u res] \<and> allFetchesOk (evs1 @ evs0)
      \<and> \<not> ok res \<and> e = FetchError u (status res)"
    by simp
  then show ?thesis unfolding failedAt_def by blast
qed

lemma disciplined_append:
  "allFetchesOk evs1 \<Longrightarrow> disciplined evs2 r \<Longrightarrow> disciplined (evs1 @ evs2) r"
  by (cases r) (auto simp: disciplined_def intro: failedAt_append)

lemma disciplined_Inl [simp]: "disciplined evs (Inl e) = failedAt evs e"
  by (simp add: disciplined_def)

lemma disciplined_Inr [simp]: "disciplined evs (Inr x) = allFetchesOk evs"
  by (simp add: disciplined_def)

lemma allFetchesOk_CacheGet [simp]: "allFetchesOk [CacheGet c k]" "allFetchesOk [CacheSet c k v]"
  "allFetchesOk [ReadStyleSheets]" "allFetchesOk []"
  by (simp_all add: allFetchesOk_def isOkEvent_def)

subsection \<open>\<open>urlToDataUrl\<close>\<close>

lemma urlToDataUrl_disciplined:
  "\<exists>evs. effects (snd (urlToDataUrl env u s)) = effects s @ evs
         \<and> disciplined evs (fst (urlToDataUrl env u s))"
proof (cases "hit (fontDataUrlCache s u)")
  case (Some c)
  then have "effects (snd (urlToDataUrl env u s)) = effects s @ [CacheGet FontDataUrlCache u]"
    "fst (urlToDataUrl env u s) = Inr c"
    by (simp_all add: urlToDataUrl_def Let_def)
  then show ?thesis
    by (auto simp: disciplined_def allFetchesOk_def isOkEvent_def)
next
  case None
  let ?res = "fetch env (effects s @ [CacheGet FontDataUrlCache u]) u"
  show ?thesis
  proof (cases "ok ?res")
    case True
    with None have "effects (snd (urlToDataUrl env u s)) =
        effects s @ [CacheGet FontDataUrlCache u, Fetch u ?res,
                     CacheSet FontDataUrlCache u (blobDataUrl ?res)]"
      "fst (urlToDataUrl env u s) = Inr (blobDataUrl ?res)"
      by (simp_all add: urlToDataUrl_def Let_def)
    with True show ?thesis
      by (auto simp: allFetchesOk_def isOkEvent_def)
  next
    case False
    with None have e: "effects (snd (urlToDataUrl env u s)) =
        effects s @ [CacheGet FontDataUrlCache u] @ [Fetch u ?res]"
      "fst (urlToDataUrl env u s) = Inl (FetchError u (status ?res))"
      by (simp_all add: urlToDataUrl_def Let_def)
    have "failedAt ([CacheGet FontDataUrlCache u] @ [Fetch u ?res]) (FetchError u (status ?res))"
      unfolding failedAt_def using False
      by (intro exI [of _ "[CacheGet FontDataUrlCache u]"] exI [of _ u] exI [of _ ?res])
         (simp add: allFetchesOk_def isOkEvent_def)
    with e show ?thesis
      by (auto simp: disciplined_def)
  qed
qed

lemma urlToDataUrl_embed [simp]:
  "embedCssForTriplesCache (snd (urlToDataUrl env u s)) = embedCssForTriplesCache s"
  by (simp add: urlToDataUrl_def Let_def split: option.splits)

subsection \<open>\<open>inlineFontFace\<close>\<close>

lemma inlineFontFace_unfold:
  "inlineFontFace env rule s =
     (let s1 = emit (CacheGet InlinedFaceCache (faceCacheKey rule)) s
      in case hit (inlinedFaceCache s (faceCacheKey rule)) of
           Some cached \<Rightarrow> (Inr (Some cached), s1)
         | None \<Rightarrow>
             (case pick (parseSrc (getPropertyValue rule ''src'')) of
                None \<Rightarrow> (Inr None, s1)
              | Some p \<Rightarrow>
                  (case urlToDataUrl env (url p) s1 of
                     (Inl e, s2) \<Rightarrow> (Inl e, s2)
                   | (Inr dataUrl, s2) \<Rightarrow>
                       let css = renderFontFace (trim (getPropertyValue rule ''font-family''))
                                   (trim (orElse (getPropertyValue rule ''font-style'') ''normal''))
                                   (trim (orElse (getPropertyValue rule ''font-weight'') ''400''))
                                   (trim (orElse (getPropertyValue rule ''unicode-range'') []))
                                   dataUrl
                       in (Inr (Some css),
                           emit (CacheSet InlinedFaceCache (faceCacheKey rule) css)
                             (s2\<lparr>inlinedFaceCache := (inlinedFaceCache s2)(faceCacheKey rule \<mapsto> css)\<rparr>)))))"
  unfolding inlineFontFace_def faceCacheKey_def Let_def by simp

lemma inlineFontFace_disciplined:
  "\<exists>evs. effects (snd (inlineFontFace env rule s)) = effects s @ evs
         \<and> disciplined evs (fst (inlineFontFace env rule s))"
proof -
  let ?s1 = "emit (CacheGet InlinedFaceCache (faceCacheKey rule)) s"
  show ?thesis
  proof (cases "hit (inlinedFaceCache s (faceCacheKey rule))")
    case (Some c)
    then show ?thesis
      by (simp add: inlineFontFace_unfold Let_def disciplined_def allFetchesOk_def isOkEvent_def)
  next
    case None
    note miss = this
    show ?thesis
    proof (cases "pick (parseSrc (getPropertyValue rule ''src''))")
      case None
      with miss show ?thesis
        by (simp add: inlineFontFace_unfold Let_def disciplined_def allFetchesOk_def isOkEvent_def)
    next
      case (Some p)
      obtain r s2 where u: "urlToDataUrl env (url p) ?s1 = (r, s2)"
        by (cases "urlToDataUrl env (url p) ?s1")
      from urlToDataUrl_disciplined [of env "url p" ?s1] u
      obtain evs where evs: "effects s2 = effects s @ [CacheGet InlinedFaceCache (faceCacheKey rule)] @ evs"
        "disciplined evs r"
        by auto
      show ?thesis
      proof (cases r)
        case (Inl e)
        with miss Some u have "inlineFontFace env rule s = (Inl e, s2)"
          by (simp add: inlineFontFace_unfold Let_def)
        moreover have "failedAt ([CacheGet InlinedFaceCache (faceCacheKey rule)] @ evs) e"
          using evs(2) Inl by (intro failedAt_append) simp_all
        ultimately show ?thesis using evs(1) by auto
      next
        case (Inr d)
        with miss Some u obtain css where
          "inlineFontFace env rule s = (Inr (Some css),
             emit (CacheSet InlinedFaceCache (faceCacheKey rule) css)
                (s2\<lparr>inlinedFaceCache := (inlinedFaceCache s2)(faceCacheKey rule \<mapsto> css)\<rparr>))"
          by (simp add: inlineFontFace_unfold Let_def)
        moreover have "allFetchesOk evs" using evs(2) Inr by (simp add: disciplined_def)
        ultimately show ?thesis using evs(1)
          by (auto simp: disciplined_def allFetchesOk_def isOkEvent_def)
      qed
    qed
  qed
qed

lemma urlToDataUrl_embed_eq:
  "urlToDataUrl env u t = (r, s2) \<Longrightarrow> embedCssForTriplesCache s2 = embedCssForTriplesCache t"
  using urlToDataUrl_embed [of env u t] by simp

lemma inlineFontFace_embed [simp]:
  "embedCssForTriplesCache (snd (inlineFontFace env rule s)) = embedCssForTriplesCache s"
  by (auto simp: inlineFontFace_unfold Let_def split: option.splits prod.splits sum.splits
      dest!: urlToDataUrl_embed_eq)

lemma inlineFontFace_Some_nonempty:
  "inlineFontFace env rule s = (Inr (Some c), s') \<Longrightarrow> c \<noteq> []"
  by (auto simp: inlineFontFace_unfold Let_def renderFontFace_nonempty
      split: option.splits prod.splits sum.splits dest: hit_Some_nonempty)

lemma inlineFontFace_None_iff:
  "inlineFontFace env rule s = (Inr None, s') \<longleftrightarrow>
     hit (inlinedFaceCache s (faceCacheKey rule)) = None
     \<and> pick (parseSrc (getPropertyValue rule ''src'')) = None
     \<and> s' = emit (CacheGet InlinedFaceCache (faceCacheKey rule)) s"
  by (auto simp: inlineFontFace_unfold Let_def split: option.splits prod.splits sum.splits)

subsection \<open>The loop over the matched rules\<close>

lemma inlineAll_disciplined:
  "\<exists>evs. effects (snd (inlineAll env rules parts s)) = effects s @ evs
         \<and> disciplined evs (fst (inlineAll env rules parts s))"
proof (induction rules arbitrary: parts s)
  case Nil
  then show ?case by simp
next
  case (Cons r rs)
  obtain x s1 where f: "inlineFontFace env (ruleStyle r) s = (x, s1)"
    by (cases "inlineFontFace env (ruleStyle r) s")
  from inlineFontFace_disciplined [of env "ruleStyle r" s] f
  obtain evs1 where evs1: "effects s1 = effects s @ evs1" "disciplined evs1 x"
    by auto
  show ?case
  proof (cases x)
    case (Inl e)
    with f evs1 show ?thesis by auto
  next
    case (Inr css)
    with f have step: "inlineAll env (r # rs) parts s = inlineAll env rs (pushIfTruthy parts css) s1"
      by simp
    from Cons.IH [of "pushIfTruthy parts css" s1]
    obtain evs2 where evs2:
      "effects (snd (inlineAll env rs (pushIfTruthy parts css) s1)) = effects s1 @ evs2"
      "disciplined evs2 (fst (inlineAll env rs (pushIfTruthy parts css) s1))"
      by blast
    from evs1 Inr have "allFetchesOk evs1" by simp
    from disciplined_append [OF this evs2(2)] evs2(1) evs1(1) step
    show ?thesis by auto
  qed
qed

lemma inlineAll_embed [simp]:
  "embedCssForTriplesCache (snd (inlineAll env rules parts s)) = embedCssForTriplesCache s"
proof (induction rules arbitrary: parts s)
  case Nil
  then show ?case by simp
next
  case (Cons r rs)
  obtain x s1 where f: "inlineFontFace env (ruleStyle r) s = (x, s1)"
    by (cases "inlineFontFace env (ruleStyle r) s")
  with inlineFontFace_embed [of env "ruleStyle r" s]
  have "embedCssForTriplesCache s1 = embedCssForTriplesCache s" by simp
  with f Cons.IH show ?case
    by (cases x) simp_all
qed

lemma notInlinable_step:
  "notInlinable (inlinedFaceCache s) r \<Longrightarrow>
   inlineFontFace env (ruleStyle r) s = (Inr None, emit (faceGet r) s)"
  by (simp add: inlineFontFace_None_iff notInlinable_def faceGet_def)

lemma inlineAll_notInlinable:
  "\<forall>r \<in> set rules. notInlinable (inlinedFaceCache s) r \<Longrightarrow>
   inlineAll env rules parts s = (Inr parts, s\<lparr>effects := effects s @ map faceGet rules\<rparr>)"
proof (induction rules arbitrary: s)
  case Nil
  then show ?case by simp
next
  case (Cons r rs)
  then have "inlineFontFace env (ruleStyle r) s = (Inr None, emit (faceGet r) s)"
    by (simp add: notInlinable_step)
  moreover from Cons.prems
  have "\<forall>r' \<in> set rs. notInlinable (inlinedFaceCache (emit (faceGet r) s)) r'"
    by simp
  from Cons.IH [OF this]
  have "inlineAll env rs parts (emit (faceGet r) s)
        = (Inr parts, s\<lparr>effects := effects s @ map faceGet (r # rs)\<rparr>)"
    by (simp add: emit_def)
  ultimately show ?case by (simp add: pushIfTruthy_def)
qed

lemma inlineAll_parts:
  "inlineAll env rules parts s = (Inr ps, s') \<Longrightarrow>
   \<exists>new. ps = parts @ new \<and> [] \<notin> set new
     \<and> (new = [] \<longrightarrow> (\<forall>r \<in> set rules. notInlinable (inlinedFaceCache s) r))"
proof (induction rules arbitrary: parts s)
  case Nil
  then show ?case by simp
next
  case (Cons r rs)
  obtain x s1 where f: "inlineFontFace env (ruleStyle r) s = (x, s1)"
    by (cases "inlineFontFace env (ruleStyle r) s")
  with Cons.prems obtain css where x: "x = Inr css"
    by (cases x) auto
  with f Cons.prems have rest: "inlineAll env rs (pushIfTruthy parts css) s1 = (Inr ps, s')"
    by simp
  from Cons.IH [OF rest] obtain new where new:
    "ps = pushIfTruthy parts css @ new" "[] \<notin> set new"
    "new = [] \<longrightarrow> (\<forall>r \<in> set rs. notInlinable (inlinedFaceCache s1) r)"
    by blast
  show ?case
  proof (cases css)
    case None
    with f x have n: "hit (inlinedFaceCache s (faceCacheKey (ruleStyle r))) = None"
      "pick (parseSrc (getPropertyValue (ruleStyle r) ''src'')) = None"
      "s1 = emit (CacheGet InlinedFaceCache (faceCacheKey (ruleStyle r))) s"
      by (simp_all add: inlineFontFace_None_iff)
    then have "notInlinable (inlinedFaceCache s) r" "inlinedFaceCache s1 = inlinedFaceCache s"
      by (simp_all add: notInlinable_def)
    with new None show ?thesis
      by (auto simp: pushIfTruthy_def)
  next
    case (Some c)
    with f x have "c \<noteq> []"
      by (auto dest: inlineFontFace_Some_nonempty)
    with new Some have "ps = parts @ (c # new)" "[] \<notin> set (c # new)"
      by (auto simp: pushIfTruthy_def)
    then show ?thesis by blast
  qed
qed

lemma join_empty: "join sep ps = [] \<Longrightarrow> [] \<notin> set ps \<Longrightarrow> ps = []"
  by (induction sep ps rule: join.induct) auto

lemma sort_same_set:
  "distinct (xs :: string list) \<Longrightarrow> distinct ys \<Longrightarrow> set xs = set ys \<Longrightarrow> sort xs = sort ys"
  by (metis distinct_sort sorted_sort set_sort sorted_distinct_set_unique)

subsection \<open>\<open>buildFontEmbedCSS\<close>\<close>

lemma build_unfold:
  assumes "collectUsedTriples root \<noteq> []"
  shows "buildFontEmbedCSS env root s =
     (case hit (embedCssForTriplesCache s (triplesKey (collectUsedTriples root))) of
        Some cached \<Rightarrow>
          (Inr cached, emit (CacheGet EmbedCssForTriplesCache (triplesKey (collectUsedTriples root))) s)
      | None \<Rightarrow>
          (case inlineAll env (matchingRules (styleSheets env) (collectUsedTriples root)) []
                  (emit ReadStyleSheets
                     (emit (CacheGet EmbedCssForTriplesCache (triplesKey (collectUsedTriples root))) s)) of
             (Inl e, s3) \<Rightarrow> (Inl e, s3)
           | (Inr parts, s3) \<Rightarrow>
               (Inr (join [CHR 0x0A] parts),
                emit (CacheSet EmbedCssForTriplesCache (triplesKey (collectUsedTriples root))
                        (join [CHR 0x0A] parts))
                  (s3\<lparr>embedCssForTriplesCache :=
                        (embedCssForTriplesCache s3)
                          (triplesKey (collectUsedTriples root) \<mapsto> join [CHR 0x0A] parts)\<rparr>))))"
  using assms unfolding buildFontEmbedCSS_def getMatchingFontFaceRules_def Let_def
  by (simp split: option.split)

lemma build_disciplined:
  "\<exists>evs. effects (snd (buildFontEmbedCSS env root s)) = effects s @ evs
         \<and> disciplined evs (fst (buildFontEmbedCSS env root s))"
proof (cases "collectUsedTriples root = []")
  case True
  then show ?thesis by (simp add: buildFontEmbedCSS_def)
next
  case False
  let ?key = "triplesKey (collectUsedTriples root)"
  let ?s1 = "emit (CacheGet EmbedCssForTriplesCache ?key) s"
  let ?s2 = "emit ReadStyleSheets ?s1"
  let ?rules = "matchingRules (styleSheets env) (collectUsedTriples root)"
  show ?thesis
  proof (cases "hit (embedCssForTriplesCache s ?key)")
    case (Some c)
    then show ?thesis by (simp add: build_unfold [OF False])
  next
    case None
    obtain x s3 where a: "inlineAll env ?rules [] ?s2 = (x, s3)"
      by (cases "inlineAll env ?rules [] ?s2")
    from inlineAll_disciplined [of env ?rules "[]" ?s2] a
    obtain evs where evs: "effects s3 = effects ?s2 @ evs" "disciplined evs x"
      by auto
    have pre: "allFetchesOk [CacheGet EmbedCssForTriplesCache ?key, ReadStyleSheets]"
      by (simp add: allFetchesOk_def isOkEvent_def)
    show ?thesis
    proof (cases x)
      case (Inl e)
      with None a have "buildFontEmbedCSS env root s = (Inl e, s3)"
        by (simp add: build_unfold [OF False])
      moreover from evs Inl
      have "failedAt ([CacheGet EmbedCssForTriplesCache ?key, ReadStyleSheets] @ evs) e"
        by (intro failedAt_append pre) simp
      ultimately show ?thesis using evs(1) by simp
    next
      case (Inr parts)
      with None a have "fst (buildFontEmbedCSS env root s) = Inr (join [CHR 0x0A] parts)"
        "effects (snd (buildFontEmbedCSS env root s))
           = effects s3 @ [CacheSet EmbedCssForTriplesCache ?key (join [CHR 0x0A] parts)]"
        by (simp_all add: build_unfold [OF False])
      moreover from evs Inr have "allFetchesOk evs" by simp
      ultimately show ?thesis using evs(1)
        by (simp add: allFetchesOk_def isOkEvent_def)
    qed
  qed
qed

lemma build_error_keeps_embed:
  "fst (buildFontEmbedCSS env root s) = Inl e \<Longrightarrow>
   embedCssForTriplesCache (snd (buildFontEmbedCSS env root s)) = embedCssForTriplesCache s"
proof (cases "collectUsedTriples root = []")
  case True
  then show ?thesis by (simp add: buildFontEmbedCSS_def)
next
  case False
  assume err: "fst (buildFontEmbedCSS env root s) = Inl e"
  let ?key = "triplesKey (collectUsedTriples root)"
  let ?s2 = "emit ReadStyleSheets (emit (CacheGet EmbedCssForTriplesCache ?key) s)"
  let ?rules = "matchingRules (styleSheets env) (collectUsedTriples root)"
  obtain x s3 where a: "inlineAll env ?rules [] ?s2 = (x, s3)"
    by (cases "inlineAll env ?rules [] ?s2")
  with inlineAll_embed [of env ?rules "[]" ?s2]
  have "embedCssForTriplesCache s3 = embedCssForTriplesCache s" by simp
  with err a show ?thesis
    by (cases x; cases "hit (embedCssForTriplesCache s ?key)")
       (simp_all add: build_unfold [OF False])
qed

lemma triplesKey_same_set:
  "set (collectUsedTriples root') = set (collectUsedTriples root) \<Longrightarrow>
   triplesKey (collectUsedTriples root') = triplesKey (collectUsedTriples root)"
  using sort_same_set [of "collectUsedTriples root'" "collectUsedTriples root"]
  by (simp add: triplesKey_def collectUsedTriples_distinct)

lemma build_again_after_empty:
  assumes ne: "collectUsedTriples root \<noteq> []"
    and first: "buildFontEmbedCSS env root s = (Inr [], s1)"
    and same: "set (collectUsedTriples root') = set (collectUsedTriples root)"
  shows "embedCssForTriplesCache s1 (triplesKey (collectUsedTriples root)) = Some []
    \<and> buildFontEmbedCSS env root' s1 =
        (Inr [],
         s1\<lparr>effects := effects s1 @
              [CacheGet EmbedCssForTriplesCache (triplesKey (collectUsedTriples root)), ReadStyleSheets]
              @ map faceGet (matchingRules (styleSheets env) (collectUsedTriples root))
              @ [CacheSet EmbedCssForTriplesCache (triplesKey (collectUsedTriples root)) []]\<rparr>)"
proof -
  let ?key = "triplesKey (collectUsedTriples root)"
  let ?get = "CacheGet EmbedCssForTriplesCache ?key"
  let ?rules = "matchingRules (styleSheets env) (collectUsedTriples root)"
  let ?s2 = "emit ReadStyleSheets (emit ?get s)"
  have miss: "hit (embedCssForTriplesCache s ?key) = None"
  proof (cases "hit (embedCssForTriplesCache s ?key)")
    case (Some c)
    with first have "c = []" by (simp add: build_unfold [OF ne])
    with hit_Some_nonempty [OF Some] show ?thesis by simp
  qed simp
  obtain x s3 where a: "inlineAll env ?rules [] ?s2 = (x, s3)"
    by (cases "inlineAll env ?rules [] ?s2")
  with first miss obtain parts where x: "x = Inr parts" and j: "join [CHR 0x0A] parts = []"
    and s1: "s1 = emit (CacheSet EmbedCssForTriplesCache ?key [])
                    (s3\<lparr>embedCssForTriplesCache := (embedCssForTriplesCache s3)(?key \<mapsto> [])\<rparr>)"
    by (cases x) (auto simp: build_unfold [OF ne])
  from inlineAll_parts [of env ?rules "[]" ?s2 parts s3] a x
  obtain new where new: "parts = new" "[] \<notin> set new"
    "new = [] \<longrightarrow> (\<forall>r \<in> set ?rules. notInlinable (inlinedFaceCache ?s2) r)"
    by auto
  with j have "parts = []" by (auto dest: join_empty)
  with new have ni: "\<forall>r \<in> set ?rules. notInlinable (inlinedFaceCache s) r" by simp
  then have "\<forall>r \<in> set ?rules. notInlinable (inlinedFaceCache ?s2) r" by simp
  from inlineAll_notInlinable [OF this, of env "[]"] a
  have s3: "s3 = ?s2\<lparr>effects := effects ?s2 @ map faceGet ?rules\<rparr>" by simp
  have stored: "embedCssForTriplesCache s1 ?key = Some []"
    by (simp add: s1)
  have face1: "inlinedFaceCache s1 = inlinedFaceCache s"
    by (simp add: s1 s3)
  have ne': "collectUsedTriples root' \<noteq> []"
    using same ne by (metis set_empty)
  have key': "triplesKey (collectUsedTriples root') = ?key"
    by (rule triplesKey_same_set [OF same])
  have rules': "matchingRules (styleSheets env) (collectUsedTriples root') = ?rules"
    by (rule matchingRules_lowercase) (simp add: same)
  let ?t2 = "emit ReadStyleSheets (emit ?get s1)"
  from ni face1 have "\<forall>r \<in> set ?rules. notInlinable (inlinedFaceCache ?t2) r" by simp
  from inlineAll_notInlinable [OF this, of env "[]"]
  have "inlineAll env ?rules [] ?t2 = (Inr [], ?t2\<lparr>effects := effects ?t2 @ map faceGet ?rules\<rparr>)" .
  with stored have "buildFontEmbedCSS env root' s1 =
      (Inr [], emit (CacheSet EmbedCssForTriplesCache ?key [])
         ((?t2\<lparr>effects := effects ?t2 @ map faceGet ?rules\<rparr>)
            \<lparr>embedCssForTriplesCache :=
               (embedCssForTriplesCache (?t2\<lparr>effects := effects ?t2 @ map faceGet ?rules\<rparr>))(?key \<mapsto> [])\<rparr>))"
    by (simp add: build_unfold [OF ne'] key' rules')
  moreover have "(embedCssForTriplesCache s1)(?key \<mapsto> []) = embedCssForTriplesCache s1"
    using stored by (simp add: fun_upd_idem)
  ultimately have "buildFontEmbedCSS env root' s1 =
        (Inr [],
         s1\<lparr>effects := effects s1 @ [?get, ReadStyleSheets] @ map faceGet ?rules
              @ [CacheSet EmbedCssForTriplesCache ?key []]\<rparr>)"
    by (simp add: emit_def)
  with stored show ?thesis by simp
qed

lemma noFetch_simps [simp]: "noFetch []" "noFetch (CacheGet c k # evs) = noFetch evs"
  "noFetch (CacheSet c k v # evs) = noFetch evs" "noFetch (ReadStyleSheets # evs) = noFetch evs"
  "noFetch (a @ b) \<longleftrightarrow> noFetch a \<and> noFetch b"
  by (simp_all add: noFetch_def isNoFetch_def)

lemma noFetch_faceGet [simp]: "noFetch (map faceGet rules)"
  by (induction rules) (simp_all add: faceGet_def)

lemma trim_Nil [simp]: "trim [] = []"
  by (simp add: trim_def)

lemma trim_defaults [simp]: "trim ''normal'' = ''normal''" "trim ''400'' = ''400''"
  by (simp_all add: trim_def isSpace_def)


section \<open>A failed fetch\<close>

text \<open>
  C2. Take any call of \<open>buildFontEmbedCSS\<close> and the events \<open>evs\<close> it adds. If among
  them is a fetch that was answered with a non-success status, then the call ends with
  the \<open>FetchError\<close> of that URL and status and returns no CSS; that fetch is the last
  event of the call and every fetch before it succeeded, so nothing is tried again and
  nothing is tried after it; and the call stores no entry in \<open>embedCssForTriplesCache\<close>.
\<close>

theorem fetch_failure_aborts_build:
  assumes "buildFontEmbedCSS env root s = (r, s')"
    and "effects s' = effects s @ evs"
    and "Fetch u res \<in> set evs"
    and "\<not> ok res"
  shows "r = Inl (FetchError u (status res))
         \<and> (\<exists>evs0. evs = evs0 @ [Fetch u res] \<and> allFetchesOk evs0)
         \<and> embedCssForTriplesCache s' = embedCssForTriplesCache s"
proof -
  from build_disciplined [of env root s] assms(1,2)
  have d: "disciplined evs r" by auto
  have notok: "\<not> allFetchesOk evs"
    using assms(3,4) by (auto simp: allFetchesOk_def list_all_iff isOkEvent_def
        intro!: bexI [of _ "Fetch u res"])
  with d obtain e where r: "r = Inl e" "failedAt evs e"
    by (cases r) simp_all
  then obtain evs0 u' res' where f: "evs = evs0 @ [Fetch u' res']" "allFetchesOk evs0"
    "\<not> ok res'" "e = FetchError u' (status res')"
    unfolding failedAt_def by blast
  from f(2) assms(4) have "Fetch u res \<notin> set evs0"
    by (auto simp: allFetchesOk_def list_all_iff isOkEvent_def)
  with assms(3) f(1) have same: "u' = u" "res' = res" by auto
  from build_error_keeps_embed [of env root s e] assms(1) r(1)
  have "embedCssForTriplesCache s' = embedCssForTriplesCache s" by simp
  with r f same show ?thesis by blast
qed


text \<open>The end-to-end example on a network that answers 404.\<close>

theorem fetch_failure_aborts_build_witness:
  "fst (buildFontEmbedCSS failingEnv interRoot initialState)
     = Inl (FetchError ''https://example/a.woff2'' 404)
   \<and> (\<exists>evs0. effects (snd (buildFontEmbedCSS failingEnv interRoot initialState))
          = evs0 @ [Fetch ''https://example/a.woff2'' \<lparr>ok = False, status = 404, blobDataUrl = []\<rparr>]
        \<and> allFetchesOk evs0)
   \<and> embedCssForTriplesCache (snd (buildFontEmbedCSS failingEnv interRoot initialState))
       = embedCssForTriplesCache initialState"
proof -
  let ?res = "\<lparr>ok = False, status = 404, blobDataUrl = []\<rparr>"
  let ?call = "buildFontEmbedCSS failingEnv interRoot initialState"
  have h1: "?call = (fst ?call, snd ?call)" by simp
  have h2: "effects (snd ?call) = effects initialState @ effects (snd ?call)"
    by (simp add: initialState_def)
  have h3: "Fetch ''https://example/a.woff2'' ?res \<in> set (effects (snd ?call))"
    by code_simp
  have h4: "\<not> ok ?res" by simp
  from fetch_failure_aborts_build [OF h1 h2 h3 h4] show ?thesis by simp
qed

section \<open>Calling twice\<close>

text \<open>
  C1. If a call of \<open>buildFontEmbedCSS\<close> returns the text \<open>out\<close>, then a second call for
  the same subtree in the same environment, started in the state the first call left,
  returns \<open>out\<close> again, and no event that the second call adds is a fetch.
\<close>

theorem build_idempotent:
  assumes first: "buildFontEmbedCSS env root s = (Inr out, s')"
  shows "\<exists>s'' evs. buildFontEmbedCSS env root s' = (Inr out, s'')
           \<and> effects s'' = effects s' @ evs \<and> noFetch evs"
proof (cases "collectUsedTriples root = []")
  case True
  with first show ?thesis
    by (auto simp: buildFontEmbedCSS_def intro!: exI [of _ "[]"])
next
  case False
  let ?key = "triplesKey (collectUsedTriples root)"
  let ?get = "CacheGet EmbedCssForTriplesCache ?key"
  show ?thesis
  proof (cases "out = []")
    case True
    from build_again_after_empty [OF False first [unfolded True] refl] True
    show ?thesis by (auto intro!: exI)
  next
    case nonempty: False
    have stored: "hit (embedCssForTriplesCache s' ?key) = Some out"
    proof (cases "hit (embedCssForTriplesCache s ?key)")
      case (Some c)
      with first show ?thesis by (auto simp: build_unfold [OF False])
    next
      case None
      with first nonempty show ?thesis
        by (auto simp: build_unfold [OF False] split: prod.splits sum.splits)
    qed
    then have "buildFontEmbedCSS env root s' = (Inr out, emit ?get s')"
      by (simp add: build_unfold [OF False])
    moreover have "effects (emit ?get s') = effects s' @ [?get]" "noFetch [?get]"
      by simp_all
    ultimately show ?thesis by blast
  qed
qed


text \<open>The end-to-end example, called twice.\<close>

theorem build_idempotent_witness:
  "fst (buildFontEmbedCSS exampleEnv interRoot initialState) = Inr interCss
   \<and> (\<exists>s'' evs.
        buildFontEmbedCSS exampleEnv interRoot (snd (buildFontEmbedCSS exampleEnv interRoot initialState))
          = (Inr interCss, s'')
        \<and> effects s'' = effects (snd (buildFontEmbedCSS exampleEnv interRoot initialState)) @ evs
        \<and> noFetch evs)"
proof -
  let ?call = "buildFontEmbedCSS exampleEnv interRoot initialState"
  have out: "fst ?call = Inr interCss"
    by code_simp
  then have h: "?call = (Inr interCss, snd ?call)"
    by (simp add: prod_eq_iff)
  from build_idempotent [OF h] out show ?thesis by blast
qed

section \<open>A stored empty string\<close>

lemma stored_empty_rescanned:
  assumes ne: "collectUsedTriples root \<noteq> []"
    and first: "buildFontEmbedCSS env root s = (Inr [], s1)"
    and same: "set (collectUsedTriples root') = set (collectUsedTriples root)"
  shows "embedCssForTriplesCache s1 (triplesKey (collectUsedTriples root)) = Some []
    \<and> triplesKey (collectUsedTriples root') = triplesKey (collectUsedTriples root)
    \<and> (\<exists>s2. buildFontEmbedCSS env root' s1 = (Inr [], s2)
          \<and> effects s2 = effects s1 @
              [CacheGet EmbedCssForTriplesCache (triplesKey (collectUsedTriples root)), ReadStyleSheets]
              @ map faceGet (matchingRules (styleSheets env) (collectUsedTriples root))
              @ [CacheSet EmbedCssForTriplesCache (triplesKey (collectUsedTriples root)) []])
    \<and> (\<forall>t. embedCssForTriplesCache t (triplesKey (collectUsedTriples root)) = Some [] \<longrightarrow>
          (\<exists>evs. effects (snd (buildFontEmbedCSS env root' t)) = effects t @
              [CacheGet EmbedCssForTriplesCache (triplesKey (collectUsedTriples root)), ReadStyleSheets]
              @ evs))"
proof -
  let ?key = "triplesKey (collectUsedTriples root)"
  let ?get = "CacheGet EmbedCssForTriplesCache ?key"
  have ne': "collectUsedTriples root' \<noteq> []"
    using same ne by (metis set_empty)
  have key': "triplesKey (collectUsedTriples root') = ?key"
    by (rule triplesKey_same_set [OF same])
  have general: "\<exists>evs. effects (snd (buildFontEmbedCSS env root' t)) = effects t @ [?get, ReadStyleSheets] @ evs"
    if t: "embedCssForTriplesCache t ?key = Some []" for t
  proof -
    let ?rules = "matchingRules (styleSheets env) (collectUsedTriples root')"
    let ?t2 = "emit ReadStyleSheets (emit ?get t)"
    obtain x t3 where a: "inlineAll env ?rules [] ?t2 = (x, t3)"
      by (cases "inlineAll env ?rules [] ?t2")
    from inlineAll_disciplined [of env ?rules "[]" ?t2] a
    obtain evs where evs: "effects t3 = effects ?t2 @ evs" by auto
    from t a evs show ?thesis
      by (cases x) (simp_all add: build_unfold [OF ne'] key')
  qed
  from build_again_after_empty [OF ne first same] key' general
  show ?thesis by auto
qed

lemma urlToDataUrl_empty_entry:
  assumes "fontDataUrlCache s u = Some []"
  shows "fst (urlToDataUrl env u s)
           = fst (urlToDataUrl env u (s\<lparr>fontDataUrlCache := (fontDataUrlCache s)(u := None)\<rparr>))"
    and "effects (snd (urlToDataUrl env u s))
           = effects (snd (urlToDataUrl env u (s\<lparr>fontDataUrlCache := (fontDataUrlCache s)(u := None)\<rparr>)))"
    and "\<exists>evs. effects (snd (urlToDataUrl env u s))
           = effects s @ [CacheGet FontDataUrlCache u,
                          Fetch u (fetch env (effects s @ [CacheGet FontDataUrlCache u]) u)] @ evs"
  using assms by (simp_all add: urlToDataUrl_def Let_def emit_def)

lemma urlToDataUrl_face_indep:
  "urlToDataUrl env u (s\<lparr>inlinedFaceCache := m\<rparr>)
     = (fst (urlToDataUrl env u s), (snd (urlToDataUrl env u s))\<lparr>inlinedFaceCache := m\<rparr>)"
  by (simp add: urlToDataUrl_def Let_def emit_def split: option.splits)

lemma inlineFontFace_empty_entry:
  assumes "inlinedFaceCache s (faceCacheKey rule) = Some []"
  shows "fst (inlineFontFace env rule s)
           = fst (inlineFontFace env rule
                    (s\<lparr>inlinedFaceCache := (inlinedFaceCache s)(faceCacheKey rule := None)\<rparr>))"
    and "effects (snd (inlineFontFace env rule s))
           = effects (snd (inlineFontFace env rule
                    (s\<lparr>inlinedFaceCache := (inlinedFaceCache s)(faceCacheKey rule := None)\<rparr>)))"
    and "fst (inlineFontFace env rule s) \<noteq> Inr (Some [])"
proof -
  let ?m = "(inlinedFaceCache s)(faceCacheKey rule := None)"
  let ?g = "CacheGet InlinedFaceCache (faceCacheKey rule)"
  have e: "emit ?g (s\<lparr>inlinedFaceCache := ?m\<rparr>) = (emit ?g s)\<lparr>inlinedFaceCache := ?m\<rparr>"
    by (simp add: emit_def)
  show "fst (inlineFontFace env rule s)
           = fst (inlineFontFace env rule (s\<lparr>inlinedFaceCache := ?m\<rparr>))"
    using assms
    by (cases "pick (parseSrc (getPropertyValue rule ''src''))")
       (auto simp: inlineFontFace_unfold Let_def e urlToDataUrl_face_indep
          split: prod.splits sum.splits)
  show "effects (snd (inlineFontFace env rule s))
           = effects (snd (inlineFontFace env rule (s\<lparr>inlinedFaceCache := ?m\<rparr>)))"
    using assms
    by (cases "pick (parseSrc (getPropertyValue rule ''src''))")
       (auto simp: inlineFontFace_unfold Let_def e urlToDataUrl_face_indep
          split: prod.splits sum.splits)
  show "fst (inlineFontFace env rule s) \<noteq> Inr (Some [])"
    using inlineFontFace_Some_nonempty [of env rule s "[]" "snd (inlineFontFace env rule s)"]
    by (auto simp: prod_eq_iff)
qed

lemma urlToDataUrl_embed_indep:
  "urlToDataUrl env u (s\<lparr>embedCssForTriplesCache := m\<rparr>)
     = (fst (urlToDataUrl env u s), (snd (urlToDataUrl env u s))\<lparr>embedCssForTriplesCache := m\<rparr>)"
  by (simp add: urlToDataUrl_def Let_def emit_def split: option.splits)

lemma inlineFontFace_embed_indep:
  "inlineFontFace env rule (s\<lparr>embedCssForTriplesCache := m\<rparr>)
     = (fst (inlineFontFace env rule s), (snd (inlineFontFace env rule s))\<lparr>embedCssForTriplesCache := m\<rparr>)"
proof -
  let ?g = "CacheGet InlinedFaceCache (faceCacheKey rule)"
  have e: "emit ?g (s\<lparr>embedCssForTriplesCache := m\<rparr>) = (emit ?g s)\<lparr>embedCssForTriplesCache := m\<rparr>"
    by (simp add: emit_def)
  have w: "emit ev (t\<lparr>inlinedFaceCache := c\<rparr>\<lparr>embedCssForTriplesCache := m\<rparr>)
           = (emit ev (t\<lparr>inlinedFaceCache := c\<rparr>))\<lparr>embedCssForTriplesCache := m\<rparr>" for ev t c
    by (simp add: emit_def)
  show ?thesis
  proof (cases "hit (inlinedFaceCache s (faceCacheKey rule))")
    case (Some c)
    then show ?thesis by (simp add: inlineFontFace_unfold Let_def e)
  next
    case None
    show ?thesis
    proof (cases "pick (parseSrc (getPropertyValue rule ''src''))")
      case None
      with \<open>hit (inlinedFaceCache s (faceCacheKey rule)) = None\<close> show ?thesis
        by (simp add: inlineFontFace_unfold Let_def e)
    next
      case (Some p)
      obtain r s2 where u: "urlToDataUrl env (url p) (emit ?g s) = (r, s2)"
        by (cases "urlToDataUrl env (url p) (emit ?g s)")
      then have u': "urlToDataUrl env (url p) ((emit ?g s)\<lparr>embedCssForTriplesCache := m\<rparr>)
                       = (r, s2\<lparr>embedCssForTriplesCache := m\<rparr>)"
        by (simp add: urlToDataUrl_embed_indep)
      have sw: "s2\<lparr>embedCssForTriplesCache := m\<rparr>\<lparr>inlinedFaceCache := c\<rparr>
                = s2\<lparr>inlinedFaceCache := c\<rparr>\<lparr>embedCssForTriplesCache := m\<rparr>" for c
        by simp
      from None Some u u' show ?thesis
        by (cases r) (simp_all add: inlineFontFace_unfold Let_def e sw w)
    qed
  qed
qed

lemma inlineAll_embed_indep:
  "inlineAll env rules parts (s\<lparr>embedCssForTriplesCache := m\<rparr>)
     = (fst (inlineAll env rules parts s), (snd (inlineAll env rules parts s))\<lparr>embedCssForTriplesCache := m\<rparr>)"
proof (induction rules arbitrary: parts s)
  case Nil
  then show ?case by simp
next
  case (Cons r rs)
  obtain x s1 where f: "inlineFontFace env (ruleStyle r) s = (x, s1)"
    by (cases "inlineFontFace env (ruleStyle r) s")
  then have f': "inlineFontFace env (ruleStyle r) (s\<lparr>embedCssForTriplesCache := m\<rparr>)
                   = (x, s1\<lparr>embedCssForTriplesCache := m\<rparr>)"
    by (simp add: inlineFontFace_embed_indep)
  show ?case
    by (cases x) (simp_all add: f f' Cons.IH)
qed

lemma build_empty_entry:
  assumes "embedCssForTriplesCache t (triplesKey (collectUsedTriples root)) = Some []"
  shows "fst (buildFontEmbedCSS env root t)
           = fst (buildFontEmbedCSS env root
                    (t\<lparr>embedCssForTriplesCache :=
                         (embedCssForTriplesCache t)(triplesKey (collectUsedTriples root) := None)\<rparr>))"
    and "effects (snd (buildFontEmbedCSS env root t))
           = effects (snd (buildFontEmbedCSS env root
                    (t\<lparr>embedCssForTriplesCache :=
                         (embedCssForTriplesCache t)(triplesKey (collectUsedTriples root) := None)\<rparr>)))"
proof -
  let ?key = "triplesKey (collectUsedTriples root)"
  let ?m = "(embedCssForTriplesCache t)(?key := None)"
  let ?t2 = "emit ReadStyleSheets (emit (CacheGet EmbedCssForTriplesCache ?key) t)"
  have e: "emit ReadStyleSheets (emit (CacheGet EmbedCssForTriplesCache ?key)
             (t\<lparr>embedCssForTriplesCache := ?m\<rparr>)) = ?t2\<lparr>embedCssForTriplesCache := ?m\<rparr>"
    by (simp add: emit_def)
  have both: "fst (buildFontEmbedCSS env root t)
           = fst (buildFontEmbedCSS env root (t\<lparr>embedCssForTriplesCache := ?m\<rparr>))
      \<and> effects (snd (buildFontEmbedCSS env root t))
           = effects (snd (buildFontEmbedCSS env root (t\<lparr>embedCssForTriplesCache := ?m\<rparr>)))"
  proof (cases "collectUsedTriples root = []")
    case True
    then show ?thesis by (simp add: buildFontEmbedCSS_def)
  next
    case False
    obtain x t3 where a: "inlineAll env (matchingRules (styleSheets env) (collectUsedTriples root)) [] ?t2
                          = (x, t3)"
      by (cases "inlineAll env (matchingRules (styleSheets env) (collectUsedTriples root)) [] ?t2")
    then have a': "inlineAll env (matchingRules (styleSheets env) (collectUsedTriples root)) []
                     (?t2\<lparr>embedCssForTriplesCache := ?m\<rparr>) = (x, t3\<lparr>embedCssForTriplesCache := ?m\<rparr>)"
      by (simp add: inlineAll_embed_indep)
    show ?thesis
      using assms by (cases x) (simp_all add: build_unfold [OF False] e a a')
  qed
  from both show "fst (buildFontEmbedCSS env root t)
           = fst (buildFontEmbedCSS env root (t\<lparr>embedCssForTriplesCache := ?m\<rparr>))"
    by simp
  from both show "effects (snd (buildFontEmbedCSS env root t))
           = effects (snd (buildFontEmbedCSS env root (t\<lparr>embedCssForTriplesCache := ?m\<rparr>)))"
    by simp
qed

text \<open>
  C9. Every cache lookup takes a stored empty string for no entry. For each of the
  three caches, a call in a state that holds the empty string under the key returns
  what it returns, and has the effects it has, in the state without that entry:
  \<open>urlToDataUrl\<close> fetches the URL again, \<open>inlineFontFace\<close> never returns the stored
  empty string, \<open>buildFontEmbedCSS\<close> reads the style sheets again after the lookup.
  In particular, suppose a call for a subtree with at least one variant returns the
  empty string, leaving the state \<open>s1\<close>. Then the empty string is stored under the
  subtree's key, and a call in \<open>s1\<close> for any subtree with the same variant set (so
  with the same key) does not return from the cache: it looks the key up, reads the
  style sheets again, runs \<open>inlineFontFace\<close> again on every matched rule (each looks
  its signature up and finds nothing to inline), stores the empty string again and
  returns it.
\<close>

theorem empty_result_recomputed:
  assumes ne: "collectUsedTriples root \<noteq> []"
    and first: "buildFontEmbedCSS env root s = (Inr [], s1)"
    and same: "set (collectUsedTriples root') = set (collectUsedTriples root)"
  shows "embedCssForTriplesCache s1 (triplesKey (collectUsedTriples root)) = Some []
    \<and> triplesKey (collectUsedTriples root') = triplesKey (collectUsedTriples root)
    \<and> (\<exists>s2. buildFontEmbedCSS env root' s1 = (Inr [], s2)
          \<and> effects s2 = effects s1 @
              [CacheGet EmbedCssForTriplesCache (triplesKey (collectUsedTriples root)), ReadStyleSheets]
              @ map faceGet (matchingRules (styleSheets env) (collectUsedTriples root))
              @ [CacheSet EmbedCssForTriplesCache (triplesKey (collectUsedTriples root)) []])
    \<and> (\<forall>t. embedCssForTriplesCache t (triplesKey (collectUsedTriples root)) = Some [] \<longrightarrow>
          (\<exists>evs. effects (snd (buildFontEmbedCSS env root' t)) = effects t @
              [CacheGet EmbedCssForTriplesCache (triplesKey (collectUsedTriples root)), ReadStyleSheets]
              @ evs))
    \<and> (\<forall>t. embedCssForTriplesCache t (triplesKey (collectUsedTriples root')) = Some [] \<longrightarrow>
          fst (buildFontEmbedCSS env root' t)
            = fst (buildFontEmbedCSS env root'
                     (t\<lparr>embedCssForTriplesCache :=
                          (embedCssForTriplesCache t)(triplesKey (collectUsedTriples root') := None)\<rparr>))
          \<and> effects (snd (buildFontEmbedCSS env root' t))
            = effects (snd (buildFontEmbedCSS env root'
                     (t\<lparr>embedCssForTriplesCache :=
                          (embedCssForTriplesCache t)(triplesKey (collectUsedTriples root') := None)\<rparr>))))
    \<and> (\<forall>t rule. inlinedFaceCache t (faceCacheKey rule) = Some [] \<longrightarrow>
          fst (inlineFontFace env rule t)
            = fst (inlineFontFace env rule
                     (t\<lparr>inlinedFaceCache := (inlinedFaceCache t)(faceCacheKey rule := None)\<rparr>))
          \<and> effects (snd (inlineFontFace env rule t))
            = effects (snd (inlineFontFace env rule
                     (t\<lparr>inlinedFaceCache := (inlinedFaceCache t)(faceCacheKey rule := None)\<rparr>)))
          \<and> fst (inlineFontFace env rule t) \<noteq> Inr (Some []))
    \<and> (\<forall>t u. fontDataUrlCache t u = Some [] \<longrightarrow>
          fst (urlToDataUrl env u t)
            = fst (urlToDataUrl env u (t\<lparr>fontDataUrlCache := (fontDataUrlCache t)(u := None)\<rparr>))
          \<and> effects (snd (urlToDataUrl env u t))
            = effects (snd (urlToDataUrl env u (t\<lparr>fontDataUrlCache := (fontDataUrlCache t)(u := None)\<rparr>)))
          \<and> (\<exists>evs. effects (snd (urlToDataUrl env u t))
                 = effects t @ [CacheGet FontDataUrlCache u,
                                Fetch u (fetch env (effects t @ [CacheGet FontDataUrlCache u]) u)] @ evs))"
proof -
  note old = stored_empty_rescanned [OF ne first same]
  have b: "\<forall>t. embedCssForTriplesCache t (triplesKey (collectUsedTriples root')) = Some [] \<longrightarrow>
          fst (buildFontEmbedCSS env root' t)
            = fst (buildFontEmbedCSS env root'
                     (t\<lparr>embedCssForTriplesCache :=
                          (embedCssForTriplesCache t)(triplesKey (collectUsedTriples root') := None)\<rparr>))
          \<and> effects (snd (buildFontEmbedCSS env root' t))
            = effects (snd (buildFontEmbedCSS env root'
                     (t\<lparr>embedCssForTriplesCache :=
                          (embedCssForTriplesCache t)(triplesKey (collectUsedTriples root') := None)\<rparr>)))"
    using build_empty_entry by blast
  have f: "\<forall>t rule. inlinedFaceCache t (faceCacheKey rule) = Some [] \<longrightarrow>
          fst (inlineFontFace env rule t)
            = fst (inlineFontFace env rule
                     (t\<lparr>inlinedFaceCache := (inlinedFaceCache t)(faceCacheKey rule := None)\<rparr>))
          \<and> effects (snd (inlineFontFace env rule t))
            = effects (snd (inlineFontFace env rule
                     (t\<lparr>inlinedFaceCache := (inlinedFaceCache t)(faceCacheKey rule := None)\<rparr>)))
          \<and> fst (inlineFontFace env rule t) \<noteq> Inr (Some [])"
    using inlineFontFace_empty_entry by blast
  have u: "\<forall>t u. fontDataUrlCache t u = Some [] \<longrightarrow>
          fst (urlToDataUrl env u t)
            = fst (urlToDataUrl env u (t\<lparr>fontDataUrlCache := (fontDataUrlCache t)(u := None)\<rparr>))
          \<and> effects (snd (urlToDataUrl env u t))
            = effects (snd (urlToDataUrl env u (t\<lparr>fontDataUrlCache := (fontDataUrlCache t)(u := None)\<rparr>)))
          \<and> (\<exists>evs. effects (snd (urlToDataUrl env u t))
                 = effects t @ [CacheGet FontDataUrlCache u,
                                Fetch u (fetch env (effects t @ [CacheGet FontDataUrlCache u]) u)] @ evs)"
    using urlToDataUrl_empty_entry by blast
  from old have o1: "embedCssForTriplesCache s1 (triplesKey (collectUsedTriples root)) = Some []"
    by (rule conjunct1)
  note o2 = old [THEN conjunct2, THEN conjunct1]
  note o3 = old [THEN conjunct2, THEN conjunct2, THEN conjunct1]
  note o4 = old [THEN conjunct2, THEN conjunct2, THEN conjunct2]
  from o1 o2 o3 o4 b f u show ?thesis by (intro conjI)
qed

text \<open>
  A subtree that uses \<open>Inter\<close>, where the only rule for it has no format hint; and the
  two states that hold the empty string in \<open>inlinedFaceCache\<close> and in
  \<open>fontDataUrlCache\<close>.
\<close>

theorem empty_result_recomputed_witness:
  "fst (buildFontEmbedCSS noFormatEnv interRoot initialState) = Inr []
   \<and> embedCssForTriplesCache (snd (buildFontEmbedCSS noFormatEnv interRoot initialState))
        ''Inter||400||normal'' = Some []
   \<and> (\<exists>s2. buildFontEmbedCSS noFormatEnv interRoot
               (snd (buildFontEmbedCSS noFormatEnv interRoot initialState)) = (Inr [], s2)
        \<and> effects s2 = effects (snd (buildFontEmbedCSS noFormatEnv interRoot initialState)) @
            [CacheGet EmbedCssForTriplesCache ''Inter||400||normal'', ReadStyleSheets,
             CacheGet InlinedFaceCache ''Inter||400||normal||'',
             CacheSet EmbedCssForTriplesCache ''Inter||400||normal'' []])
   \<and> (\<exists>evs. effects (snd (buildFontEmbedCSS noFormatEnv interRoot
                             (snd (buildFontEmbedCSS noFormatEnv interRoot initialState))))
          = effects (snd (buildFontEmbedCSS noFormatEnv interRoot initialState))
            @ [CacheGet EmbedCssForTriplesCache ''Inter||400||normal'', ReadStyleSheets] @ evs)
   \<and> fst (inlineFontFace noFormatEnv interRule emptyFaceState) = Inr (Some interCss)
   \<and> fst (inlineFontFace noFormatEnv interRule emptyFaceState) \<noteq> Inr (Some [])
   \<and> fst (urlToDataUrl noFormatEnv ''https://example/a.woff2'' emptyUrlState)
       = Inr ''data:https://example/a.woff2''
   \<and> (\<exists>evs. effects (snd (urlToDataUrl noFormatEnv ''https://example/a.woff2'' emptyUrlState))
          = effects emptyUrlState
            @ [CacheGet FontDataUrlCache ''https://example/a.woff2'',
               Fetch ''https://example/a.woff2''
                 (fetch noFormatEnv
                    (effects emptyUrlState @ [CacheGet FontDataUrlCache ''https://example/a.woff2''])
                    ''https://example/a.woff2'')] @ evs)"
proof -
  let ?call = "buildFontEmbedCSS noFormatEnv interRoot initialState"
  have ne: "collectUsedTriples interRoot \<noteq> []"
    by code_simp
  have out: "fst ?call = Inr []"
    by code_simp
  then have first: "?call = (Inr [], snd ?call)"
    by (simp add: prod_eq_iff)
  have key: "triplesKey (collectUsedTriples interRoot) = ''Inter||400||normal''"
    by code_simp
  have gets: "map faceGet (matchingRules (styleSheets noFormatEnv) (collectUsedTriples interRoot))
              = [CacheGet InlinedFaceCache ''Inter||400||normal||'']"
    by code_simp
  note r = empty_result_recomputed [OF ne first refl, unfolded key gets]
  from r have stored:
    "embedCssForTriplesCache (snd ?call) ''Inter||400||normal'' = Some []"
    by (rule conjunct1)
  from r [THEN conjunct2, THEN conjunct2, THEN conjunct1]
  have second: "\<exists>s2. buildFontEmbedCSS noFormatEnv interRoot (snd ?call) = (Inr [], s2)
        \<and> effects s2 = effects (snd ?call) @
            [CacheGet EmbedCssForTriplesCache ''Inter||400||normal'', ReadStyleSheets,
             CacheGet InlinedFaceCache ''Inter||400||normal||'',
             CacheSet EmbedCssForTriplesCache ''Inter||400||normal'' []]"
    by simp
  from r [THEN conjunct2, THEN conjunct2, THEN conjunct2, THEN conjunct1, THEN spec, THEN mp, OF stored]
  have again: "\<exists>evs. effects (snd (buildFontEmbedCSS noFormatEnv interRoot (snd ?call)))
                 = effects (snd ?call)
                   @ [CacheGet EmbedCssForTriplesCache ''Inter||400||normal'', ReadStyleSheets] @ evs" .
  have fk: "inlinedFaceCache emptyFaceState (faceCacheKey interRule) = Some []"
    by code_simp
  note face = r [THEN conjunct2, THEN conjunct2, THEN conjunct2, THEN conjunct2, THEN conjunct2,
                 THEN conjunct1, THEN spec, THEN spec, THEN mp, OF fk,
                 THEN conjunct2, THEN conjunct2]
  have fout: "fst (inlineFontFace noFormatEnv interRule emptyFaceState) = Inr (Some interCss)"
    by code_simp
  have uk: "fontDataUrlCache emptyUrlState ''https://example/a.woff2'' = Some []"
    by code_simp
  note fetched = r [THEN conjunct2, THEN conjunct2, THEN conjunct2, THEN conjunct2, THEN conjunct2,
                    THEN conjunct2, THEN spec, THEN spec, THEN mp, OF uk,
                    THEN conjunct2, THEN conjunct2]
  have uout: "fst (urlToDataUrl noFormatEnv ''https://example/a.woff2'' emptyUrlState)
       = Inr ''data:https://example/a.woff2''"
    by code_simp
  from out stored second again fout face uout fetched show ?thesis by (intro conjI)
qed

section \<open>The rendered font-face text\<close>

text \<open>
  C6. When \<open>inlineFontFace\<close> renders a declaration (nothing truthy is cached for its
  signature, and the call returns a text), the text is \<open>@font-face{\<close>, the family,
  the style (\<open>normal\<close> when the declaration's is empty), the weight (\<open>400\<close> when
  empty), the unicode range when and only when the declaration's is not empty, one
  \<open>src\<close> that points at the data URL of the chosen candidate and says
  \<open>format('woff2')\<close> whatever the candidate's format was, \<open>font-display:block\<close>, and
  the closing brace.
\<close>

theorem rendered_font_face_text:
  assumes miss: "hit (inlinedFaceCache s (faceCacheKey rule)) = None"
    and res: "inlineFontFace env rule s = (Inr (Some css), s')"
  shows "\<exists>p dataUrl.
      pick (parseSrc (getPropertyValue rule ''src'')) = Some p
    \<and> fst (urlToDataUrl env (url p) (emit (CacheGet InlinedFaceCache (faceCacheKey rule)) s)) = Inr dataUrl
    \<and> css =
        ''@font-face{'' @
        ''font-family:'' @ trim (getPropertyValue rule ''font-family'') @ '';'' @
        ''font-style:'' @
           (if trim (getPropertyValue rule ''font-style'') = [] then ''normal''
            else trim (getPropertyValue rule ''font-style'')) @ '';'' @
        ''font-weight:'' @
           (if trim (getPropertyValue rule ''font-weight'') = [] then ''400''
            else trim (getPropertyValue rule ''font-weight'')) @ '';'' @
        (if trim (getPropertyValue rule ''unicode-range'') = [] then []
         else ''unicode-range:'' @ trim (getPropertyValue rule ''unicode-range'') @ '';'') @
        ''src:url('' @ dataUrl @ '') format('woff2');'' @
        ''font-display:block;'' @
        ''}''"
proof -
  from miss res obtain p where p: "pick (parseSrc (getPropertyValue rule ''src'')) = Some p"
    by (cases "pick (parseSrc (getPropertyValue rule ''src''))")
       (auto simp: inlineFontFace_unfold Let_def)
  let ?s1 = "emit (CacheGet InlinedFaceCache (faceCacheKey rule)) s"
  obtain r s2 where u: "urlToDataUrl env (url p) ?s1 = (r, s2)"
    by (cases "urlToDataUrl env (url p) ?s1")
  with miss res p obtain d where d: "r = Inr d"
    and css: "css = renderFontFace (trim (getPropertyValue rule ''font-family''))
                      (trim (orElse (getPropertyValue rule ''font-style'') ''normal''))
                      (trim (orElse (getPropertyValue rule ''font-weight'') ''400''))
                      (trim (orElse (getPropertyValue rule ''unicode-range'') []))
                      d"
    by (cases r) (auto simp: inlineFontFace_unfold Let_def)
  from css have "css =
        ''@font-face{'' @
        ''font-family:'' @ trim (getPropertyValue rule ''font-family'') @ '';'' @
        ''font-style:'' @
           (if trim (getPropertyValue rule ''font-style'') = [] then ''normal''
            else trim (getPropertyValue rule ''font-style'')) @ '';'' @
        ''font-weight:'' @
           (if trim (getPropertyValue rule ''font-weight'') = [] then ''400''
            else trim (getPropertyValue rule ''font-weight'')) @ '';'' @
        (if trim (getPropertyValue rule ''unicode-range'') = [] then []
         else ''unicode-range:'' @ trim (getPropertyValue rule ''unicode-range'') @ '';'') @
        ''src:url('' @ d @ '') format('woff2');'' @
        ''font-display:block;'' @
        ''}''"
    by (auto simp: renderFontFace_def orElse_def)
  with p u d show ?thesis by simp
qed

text \<open>
  A rule without style and weight, with a unicode range, whose only source is a woff
  file.
\<close>

theorem rendered_font_face_text_witness:
  "fst (inlineFontFace exampleEnv latinRule initialState) = Inr (Some latinCss)
   \<and> (\<exists>p dataUrl.
      pick (parseSrc (getPropertyValue latinRule ''src'')) = Some p
    \<and> fst (urlToDataUrl exampleEnv (url p)
              (emit (CacheGet InlinedFaceCache (faceCacheKey latinRule)) initialState)) = Inr dataUrl
    \<and> latinCss =
        ''@font-face{'' @
        ''font-family:'' @ trim (getPropertyValue latinRule ''font-family'') @ '';'' @
        ''font-style:'' @
           (if trim (getPropertyValue latinRule ''font-style'') = [] then ''normal''
            else trim (getPropertyValue latinRule ''font-style'')) @ '';'' @
        ''font-weight:'' @
           (if trim (getPropertyValue latinRule ''font-weight'') = [] then ''400''
            else trim (getPropertyValue latinRule ''font-weight'')) @ '';'' @
        (if trim (getPropertyValue latinRule ''unicode-range'') = [] then []
         else ''unicode-range:'' @ trim (getPropertyValue latinRule ''unicode-range'') @ '';'') @
        ''src:url('' @ dataUrl @ '') format('woff2');'' @
        ''font-display:block;'' @
        ''}'')"
proof -
  let ?call = "inlineFontFace exampleEnv latinRule initialState"
  have miss: "hit (inlinedFaceCache initialState (faceCacheKey latinRule)) = None"
    by (simp add: initialState_def)
  have out: "fst ?call = Inr (Some latinCss)"
    by code_simp
  then have res: "?call = (Inr (Some latinCss), snd ?call)"
    by (simp add: prod_eq_iff)
  from rendered_font_face_text [OF miss res] out show ?thesis by blast
qed

section \<open>Choosing a source candidate\<close>

lemma pick_index:
  assumes "cands \<noteq> []"
  shows "\<exists>i < length cands. pick cands = Some (cands ! i)
           \<and> (sublist ''woff2'' (format (cands ! i))
                \<and> (\<forall>j < i. \<not> sublist ''woff2'' (format (cands ! j)))
              \<or> i = 0 \<and> (\<forall>j < length cands. \<not> sublist ''woff2'' (format (cands ! j))))"
proof (cases "find (\<lambda>u. sublist ''woff2'' (format u)) cands")
  case None
  then have "\<forall>j < length cands. \<not> sublist ''woff2'' (format (cands ! j))"
    by (simp add: find_None_iff)
  moreover from None assms have "pick cands = Some (cands ! 0)"
    by (cases cands) (simp_all add: pick_def)
  ultimately show ?thesis using assms by (intro exI [of _ 0]) simp
next
  case (Some u)
  then obtain i where i: "i < length cands" "sublist ''woff2'' (format (cands ! i))"
    "u = cands ! i" "\<forall>j < i. \<not> sublist ''woff2'' (format (cands ! j))"
    by (auto simp: find_Some_iff)
  moreover from Some i(3) have "pick cands = Some (cands ! i)"
    by (simp add: pick_def)
  ultimately show ?thesis by blast
qed

lemma parseSrc_nth:
  "i < length (parseSrc src) \<Longrightarrow>
   url (parseSrc src ! i) = stripQuotes (fst (matchAllSrc src ! i))
   \<and> format (parseSrc src ! i) = toLowerCase (snd (matchAllSrc src ! i))"
  by (simp add: parseSrc_def case_prod_beta)

lemma inlineFontFace_hit:
  "hit (inlinedFaceCache s (faceCacheKey rule)) = Some c \<Longrightarrow>
   inlineFontFace env rule s = (Inr (Some c), emit (CacheGet InlinedFaceCache (faceCacheKey rule)) s)"
  by (simp add: inlineFontFace_unfold Let_def)

text \<open>
  C5, as the claim states it, fails. The example rule lists a woff source before a
  woff2 source. Called after a rule with the same family, weight, style and unicode
  range has been inlined, \<open>inlineFontFace\<close> returns the text rendered for that other
  rule, which embeds the truetype file, and the woff2 file is never fetched.
\<close>

theorem candidate_choice_counterexample:
  "parseSrc (getPropertyValue interRule ''src'')
     = [\<lparr>url = ''https://example/a.woff'', format = ''woff''\<rparr>,
        \<lparr>url = ''https://example/a.woff2'', format = ''woff2''\<rparr>]
   \<and> fst (inlineFontFace exampleEnv ttfRule initialState) = Inr (Some ttfCss)
   \<and> fst (inlineFontFace exampleEnv interRule (snd (inlineFontFace exampleEnv ttfRule initialState)))
       = Inr (Some ttfCss)
   \<and> effects (snd (inlineFontFace exampleEnv interRule
                      (snd (inlineFontFace exampleEnv ttfRule initialState))))
       = effects (snd (inlineFontFace exampleEnv ttfRule initialState))
           @ [CacheGet InlinedFaceCache ''Inter||400||normal||'']"
  by code_simp

text \<open>
  C5, amended. When \<open>inlinedFaceCache\<close> holds a non-empty text under the
  declaration's signature, \<open>inlineFontFace\<close> returns that text and chooses no
  candidate. When it holds none and the \<open>src\<close> of the declaration gives at least one
  candidate, the candidate chosen is the first one whose format, in lower case,
  contains \<open>woff2\<close>, or the first of the list when no format contains it; a failure
  of \<open>urlToDataUrl\<close> for the chosen URL is the failure of the call, and otherwise the
  text rendered with the data URL of the chosen URL is stored and returned.
\<close>

theorem inlineFontFace_candidate_choice:
  assumes "cands = parseSrc (getPropertyValue rule ''src'')"
    and "s1 = emit (CacheGet InlinedFaceCache (faceCacheKey rule)) s"
  shows "(hit (inlinedFaceCache s (faceCacheKey rule)) = Some c \<longrightarrow>
            inlineFontFace env rule s = (Inr (Some c), s1))
    \<and> (hit (inlinedFaceCache s (faceCacheKey rule)) = None \<and> cands \<noteq> [] \<longrightarrow>
         (\<exists>i < length cands.
            (sublist ''woff2'' (format (cands ! i))
               \<and> (\<forall>j < i. \<not> sublist ''woff2'' (format (cands ! j)))
             \<or> i = 0 \<and> (\<forall>j < length cands. \<not> sublist ''woff2'' (format (cands ! j))))
          \<and> url (cands ! i) = stripQuotes (fst (matchAllSrc (getPropertyValue rule ''src'') ! i))
          \<and> format (cands ! i) = toLowerCase (snd (matchAllSrc (getPropertyValue rule ''src'') ! i))
          \<and> (case urlToDataUrl env (url (cands ! i)) s1 of
                (Inl e, s2) \<Rightarrow> inlineFontFace env rule s = (Inl e, s2)
              | (Inr dataUrl, s2) \<Rightarrow>
                  inlineFontFace env rule s =
                    (Inr (Some (ruleCss rule dataUrl)),
                     emit (CacheSet InlinedFaceCache (faceCacheKey rule)
                             (ruleCss rule dataUrl))
                       (s2\<lparr>inlinedFaceCache := (inlinedFaceCache s2)
                             (faceCacheKey rule \<mapsto>
                                ruleCss rule dataUrl)\<rparr>)))))"
proof (intro conjI impI)
  assume "hit (inlinedFaceCache s (faceCacheKey rule)) = Some c"
  then show "inlineFontFace env rule s = (Inr (Some c), s1)"
    by (simp add: inlineFontFace_hit assms(2))
next
  assume a: "hit (inlinedFaceCache s (faceCacheKey rule)) = None \<and> cands \<noteq> []"
  then have miss: "hit (inlinedFaceCache s (faceCacheKey rule)) = None" and ne: "cands \<noteq> []"
    by simp_all
  from pick_index [OF ne] obtain i where i: "i < length cands" "pick cands = Some (cands ! i)"
    "sublist ''woff2'' (format (cands ! i)) \<and> (\<forall>j < i. \<not> sublist ''woff2'' (format (cands ! j)))
     \<or> i = 0 \<and> (\<forall>j < length cands. \<not> sublist ''woff2'' (format (cands ! j)))"
    by blast
  from i(1) parseSrc_nth [of i "getPropertyValue rule ''src''"] assms(1)
  have groups: "url (cands ! i) = stripQuotes (fst (matchAllSrc (getPropertyValue rule ''src'') ! i))"
    "format (cands ! i) = toLowerCase (snd (matchAllSrc (getPropertyValue rule ''src'') ! i))"
    by simp_all
  obtain r s2 where u: "urlToDataUrl env (url (cands ! i)) s1 = (r, s2)"
    by (cases "urlToDataUrl env (url (cands ! i)) s1")
  have call: "case urlToDataUrl env (url (cands ! i)) s1 of
                (Inl e, s2) \<Rightarrow> inlineFontFace env rule s = (Inl e, s2)
              | (Inr dataUrl, s2) \<Rightarrow>
                  inlineFontFace env rule s =
                    (Inr (Some (ruleCss rule dataUrl)),
                     emit (CacheSet InlinedFaceCache (faceCacheKey rule)
                             (ruleCss rule dataUrl))
                       (s2\<lparr>inlinedFaceCache := (inlinedFaceCache s2)
                             (faceCacheKey rule \<mapsto>
                                ruleCss rule dataUrl)\<rparr>))"
    using miss i(2) u assms
    by (cases r) (simp_all add: inlineFontFace_unfold Let_def ruleCss_def)
  from i(1) i(3) groups call
  show "\<exists>i < length cands.
            (sublist ''woff2'' (format (cands ! i))
               \<and> (\<forall>j < i. \<not> sublist ''woff2'' (format (cands ! j)))
             \<or> i = 0 \<and> (\<forall>j < length cands. \<not> sublist ''woff2'' (format (cands ! j))))
          \<and> url (cands ! i) = stripQuotes (fst (matchAllSrc (getPropertyValue rule ''src'') ! i))
          \<and> format (cands ! i) = toLowerCase (snd (matchAllSrc (getPropertyValue rule ''src'') ! i))
          \<and> (case urlToDataUrl env (url (cands ! i)) s1 of
                (Inl e, s2) \<Rightarrow> inlineFontFace env rule s = (Inl e, s2)
              | (Inr dataUrl, s2) \<Rightarrow>
                  inlineFontFace env rule s =
                    (Inr (Some (ruleCss rule dataUrl)),
                     emit (CacheSet InlinedFaceCache (faceCacheKey rule)
                             (ruleCss rule dataUrl))
                       (s2\<lparr>inlinedFaceCache := (inlinedFaceCache s2)
                             (faceCacheKey rule \<mapsto>
                                ruleCss rule dataUrl)\<rparr>)))"
    by (intro exI [of _ i] conjI) assumption+
qed

text \<open>
  The example rule in the initial state, where the woff2 file is the one embedded, and
  after the truetype rule of the same signature has been inlined.
\<close>

theorem inlineFontFace_candidate_choice_witness:
  "fst (inlineFontFace exampleEnv interRule initialState) = Inr (Some interCss)
   \<and> inlineFontFace exampleEnv interRule (snd (inlineFontFace exampleEnv ttfRule initialState))
       = (Inr (Some ttfCss),
          emit (CacheGet InlinedFaceCache (faceCacheKey interRule))
            (snd (inlineFontFace exampleEnv ttfRule initialState)))
   \<and> (\<exists>i < length (parseSrc (getPropertyValue interRule ''src'')).
            (sublist ''woff2'' (format ((parseSrc (getPropertyValue interRule ''src'')) ! i))
               \<and> (\<forall>j < i. \<not> sublist ''woff2'' (format ((parseSrc (getPropertyValue interRule ''src'')) ! j)))
             \<or> i = 0 \<and> (\<forall>j < length (parseSrc (getPropertyValue interRule ''src'')). \<not> sublist ''woff2'' (format ((parseSrc (getPropertyValue interRule ''src'')) ! j))))
          \<and> url ((parseSrc (getPropertyValue interRule ''src'')) ! i) = stripQuotes (fst (matchAllSrc (getPropertyValue interRule ''src'') ! i))
          \<and> format ((parseSrc (getPropertyValue interRule ''src'')) ! i) = toLowerCase (snd (matchAllSrc (getPropertyValue interRule ''src'') ! i))
          \<and> (case urlToDataUrl exampleEnv (url ((parseSrc (getPropertyValue interRule ''src'')) ! i)) (emit (CacheGet InlinedFaceCache (faceCacheKey interRule)) initialState) of
                (Inl e, s2) \<Rightarrow> inlineFontFace exampleEnv interRule initialState = (Inl e, s2)
              | (Inr dataUrl, s2) \<Rightarrow>
                  inlineFontFace exampleEnv interRule initialState =
                    (Inr (Some (ruleCss interRule dataUrl)),
                     emit (CacheSet InlinedFaceCache (faceCacheKey interRule)
                             (ruleCss interRule dataUrl))
                       (s2\<lparr>inlinedFaceCache := (inlinedFaceCache s2)
                             (faceCacheKey interRule \<mapsto>
                                ruleCss interRule dataUrl)\<rparr>))))"
proof -
  have out: "fst (inlineFontFace exampleEnv interRule initialState) = Inr (Some interCss)"
    by code_simp
  have miss: "hit (inlinedFaceCache initialState (faceCacheKey interRule)) = None"
    by (simp add: initialState_def)
  have ne: "parseSrc (getPropertyValue interRule ''src'') \<noteq> []"
    by code_simp
  note choice = inlineFontFace_candidate_choice
    [OF refl refl, of initialState interRule _ exampleEnv, THEN conjunct2, THEN mp, OF conjI [OF miss ne]]
  have cached: "hit (inlinedFaceCache (snd (inlineFontFace exampleEnv ttfRule initialState))
                  (faceCacheKey interRule)) = Some ttfCss"
    by code_simp
  note again = inlineFontFace_candidate_choice
    [OF refl refl, of "snd (inlineFontFace exampleEnv ttfRule initialState)" interRule ttfCss exampleEnv,
     THEN conjunct1, THEN mp, OF cached]
  from out conjI [OF again choice] show ?thesis by (rule conjI)
qed

section \<open>A declaration without candidates\<close>

text \<open>
  The matcher against the description of the pattern: what it returns is an
  occurrence of the pattern with the two groups it gives, and it finds no match
  exactly when the text has no occurrence.
\<close>

lemma stripPrefix_Some: "stripPrefix p s = Some r \<longleftrightarrow> s = p @ r"
  by (auto simp: stripPrefix_def prefix_def)

lemma lastParen_Some:
  "lastParen r = Some (a, b) \<Longrightarrow> r = a @ CHR '')'' # b \<and> CHR '')'' \<notin> set b"
proof (induction r arbitrary: a b)
  case Nil
  then show ?case by simp
next
  case (Cons c cs)
  show ?case
  proof (cases "lastParen cs")
    case None
    have "CHR '')'' \<notin> set cs" using None
    proof (induction cs)
      case Nil
      then show ?case by simp
    next
      case (Cons d ds)
      then show ?case by (auto split: option.splits if_splits)
    qed
    with Cons.prems None show ?thesis by (auto split: if_splits)
  next
    case (Some x)
    with Cons show ?thesis by (cases x) auto
  qed
qed

lemma lastParen_None: "lastParen r = None \<longleftrightarrow> CHR '')'' \<notin> set r"
  by (induction r) (auto split: option.splits)

lemma lastParen_after:
  assumes "lastParen (xs @ CHR '')'' # ys) = Some (a, b)"
  shows "length xs \<le> length a"
proof (rule ccontr)
  assume "\<not> length xs \<le> length a"
  then have lt: "length a < length xs" by simp
  from lastParen_Some [OF assms] have eq: "xs @ CHR '')'' # ys = a @ CHR '')'' # b"
    and nb: "CHR '')'' \<notin> set b" by simp_all
  have "(xs @ CHR '')'' # ys) ! length xs = CHR '')''" by simp
  with eq have "(a @ CHR '')'' # b) ! length xs = CHR '')''" by simp
  moreover from lt have "(a @ CHR '')'' # b) ! length xs = b ! (length xs - length a - 1)"
    by (simp add: nth_append nth_Cons')
  moreover have "length xs - length a - 1 < length b"
  proof -
    from eq have "length xs + 1 + length ys = length a + 1 + length b"
      by (metis length_append length_Cons Suc_eq_plus1 add.assoc add.commute)
    with lt show ?thesis by simp
  qed
  ultimately have "CHR '')'' \<in> set b" by (metis nth_mem)
  with nb show False by simp
qed

lemma matchFormatBody_sound:
  assumes "matchFormatBody r4 = Some (g2, rest)"
  shows "\<exists>q1 q2. r4 = q1 @ g2 @ q2 @ CHR '')'' # rest \<and> optQuote q1 \<and> optQuote q2
           \<and> g2 \<noteq> [] \<and> (\<forall>c \<in> set g2. \<not> isQuote c)"
proof -
  define q1 where "q1 = (case r4 of [] \<Rightarrow> [] | c # cs \<Rightarrow> if isQuote c then [c] else [])"
  define r5 where "r5 = (case r4 of [] \<Rightarrow> [] | c # cs \<Rightarrow> if isQuote c then cs else r4)"
  define run where "run = takeWhile (\<lambda>c. \<not> isQuote c) r5"
  define r6 where "r6 = dropWhile (\<lambda>c. \<not> isQuote c) r5"
  have r4: "r4 = q1 @ r5" "optQuote q1"
    by (auto simp: q1_def r5_def optQuote_def split: list.splits)
  have r5: "r5 = run @ r6"
    by (simp add: run_def r6_def)
  have runq: "\<forall>c \<in> set run. \<not> isQuote c"
    by (auto simp: run_def dest: set_takeWhileD)
  from assms have ne: "run \<noteq> []"
    by (auto simp: matchFormatBody_def Let_def r5_def run_def split: if_splits)
  from assms ne consider
      (quoted) "closeQuoted r6 = Some rest" "g2 = run"
    | (bare) a b where "lastParen run = Some (a, b)" "a \<noteq> []" "g2 = a" "rest = b @ r6"
    by (auto simp: matchFormatBody_def Let_def r5_def run_def r6_def
        split: if_splits option.splits)
  then show ?thesis
  proof cases
    case quoted
    from quoted(1) obtain q where q: "r6 = q # CHR '')'' # rest"
      by (auto simp: closeQuoted_def split: list.splits if_splits)
    then have "isQuote q"
      using hd_dropWhile [of "\<lambda>c. \<not> isQuote c" r5] by (simp add: r6_def)
    then have "optQuote [q]" by (simp add: optQuote_def)
    moreover have "r4 = q1 @ g2 @ [q] @ CHR '')'' # rest"
      using r4 r5 q quoted(2) by simp
    ultimately show ?thesis using r4(2) ne runq quoted(2) by blast
  next
    case bare
    from lastParen_Some [OF bare(1)] have run: "run = a @ CHR '')'' # b" by simp
    then have "r4 = q1 @ g2 @ [] @ CHR '')'' # rest"
      using r4 r5 bare by simp
    moreover have "\<forall>c \<in> set g2. \<not> isQuote c"
      using runq run bare(3) by auto
    moreover have "optQuote []" by (simp add: optQuote_def)
    ultimately show ?thesis using r4(2) bare(2,3) by blast
  qed
qed

lemma matchSrcAt_sound:
  assumes "matchSrcAt s = Some ((g1, g2), rest)"
  shows "\<exists>m. s = m @ rest \<and> matchesPattern m g1 g2"
proof -
  from assms obtain s1 c r2 r4 where
    s1: "stripPrefix ''url('' s = Some s1"
    and g1: "g1 = takeWhile (\<lambda>c. c \<noteq> CHR '')'') s1" "g1 \<noteq> []"
    and r2: "dropWhile (\<lambda>c. c \<noteq> CHR '')'') s1 = c # r2"
    and r4: "stripPrefix ''format('' (dropWhile isSpace r2) = Some r4"
    and body: "matchFormatBody r4 = Some (g2, rest)"
    by (auto simp: matchSrcAt_def Let_def split: option.splits if_splits list.splits)
  from r2 have c: "c = CHR '')''"
    using hd_dropWhile [of "\<lambda>c. c \<noteq> CHR '')''" s1] by simp
  have s1': "s1 = g1 @ CHR '')'' # r2"
    using r2 c g1(1) by (metis takeWhile_dropWhile_id)
  have np: "CHR '')'' \<notin> set g1"
    using g1(1) by (auto dest: set_takeWhileD)
  define ws where "ws = takeWhile isSpace r2"
  have ws: "\<forall>c \<in> set ws. isSpace c"
    by (auto simp: ws_def dest: set_takeWhileD)
  from r4 have "r2 = ws @ ''format('' @ r4"
    by (metis stripPrefix_Some takeWhile_dropWhile_id ws_def)
  moreover from matchFormatBody_sound [OF body] obtain q1 q2 where
    b: "r4 = q1 @ g2 @ q2 @ CHR '')'' # rest" "optQuote q1" "optQuote q2"
    "g2 \<noteq> []" "\<forall>c \<in> set g2. \<not> isQuote c"
    by blast
  moreover from s1 have "s = ''url('' @ s1" by (simp add: stripPrefix_Some)
  ultimately have "s = (''url('' @ g1 @ '')'' @ ws @ ''format('' @ q1 @ g2 @ q2 @ '')'') @ rest"
    using s1' by simp
  moreover have "matchesPattern (''url('' @ g1 @ '')'' @ ws @ ''format('' @ q1 @ g2 @ q2 @ '')'') g1 g2"
    unfolding matchesPattern_def using g1(2) np ws b(2-) by blast
  ultimately show ?thesis by blast
qed

lemma isSpace_f [simp]: "\<not> isSpace CHR ''f''"
  by (simp add: isSpace_def)

lemma matchFormatBody_complete:
  assumes q1: "optQuote q1" and q2: "optQuote q2"
    and g2: "g2 \<noteq> []" "\<forall>c \<in> set g2. \<not> isQuote c"
  shows "matchFormatBody (q1 @ g2 @ q2 @ CHR '')'' # post) \<noteq> None"
proof -
  let ?r4 = "q1 @ g2 @ q2 @ CHR '')'' # post"
  let ?r5 = "g2 @ q2 @ CHR '')'' # post"
  have r5: "(case ?r4 of [] \<Rightarrow> [] | c # cs \<Rightarrow> if isQuote c then cs else ?r4) = ?r5"
  proof (cases "q1 = []")
    case True
    with g2 show ?thesis by (cases g2) auto
  next
    case False
    with q1 show ?thesis by (auto simp: optQuote_def)
  qed
  define run where "run = takeWhile (\<lambda>c. \<not> isQuote c) ?r5"
  define r6 where "r6 = dropWhile (\<lambda>c. \<not> isQuote c) ?r5"
  have unfold: "matchFormatBody ?r4 =
      (if run = [] then None
       else case closeQuoted r6 of Some rest \<Rightarrow> Some (run, rest)
            | None \<Rightarrow> (case lastParen run of None \<Rightarrow> None
                         | Some (a, b) \<Rightarrow> if a = [] then None else Some (a, b @ r6)))"
    unfolding matchFormatBody_def r5 Let_def run_def r6_def by simp
  show ?thesis
  proof (cases "q2 = []")
    case False
    with q2 obtain q where q: "q2 = [q]" "isQuote q" by (auto simp: optQuote_def)
    with g2(2) have "run = g2" "r6 = q # CHR '')'' # post"
      by (simp_all add: run_def r6_def takeWhile_append2 dropWhile_append2)
    with g2(1) show ?thesis
      by (simp add: unfold closeQuoted_def)
  next
    case True
    have run: "run = g2 @ CHR '')'' # takeWhile (\<lambda>c. \<not> isQuote c) post"
      using g2(2) True by (simp add: run_def takeWhile_append2 isQuote_def)
    then have ne: "run \<noteq> []" by simp
    show ?thesis
    proof (cases "closeQuoted r6")
      case (Some rest)
      with ne show ?thesis by (simp add: unfold)
    next
      case None
      have "lastParen run \<noteq> None"
        by (simp add: lastParen_None run)
      then obtain a b where ab: "lastParen run = Some (a, b)" by auto
      from lastParen_after [OF ab [unfolded run]] g2(1) have "a \<noteq> []" by auto
      with None ne ab show ?thesis by (simp add: unfold)
    qed
  qed
qed

lemma matchSrcAt_complete:
  assumes "matchesPattern m g1 g2"
  shows "matchSrcAt (m @ post) \<noteq> None"
proof -
  from assms obtain ws q1 q2 where
    m: "m = ''url('' @ g1 @ '')'' @ ws @ ''format('' @ q1 @ g2 @ q2 @ '')''"
    and g1: "g1 \<noteq> []" "CHR '')'' \<notin> set g1"
    and ws: "\<forall>c \<in> set ws. isSpace c"
    and q: "optQuote q1" "g2 \<noteq> []" "\<forall>c \<in> set g2. \<not> isQuote c" "optQuote q2"
    unfolding matchesPattern_def by blast
  let ?r4 = "q1 @ g2 @ q2 @ CHR '')'' # post"
  let ?r2 = "ws @ ''format('' @ ?r4"
  let ?s1 = "g1 @ CHR '')'' # ?r2"
  have s: "m @ post = ''url('' @ ?s1" by (simp add: m)
  have s1: "stripPrefix ''url('' (m @ post) = Some ?s1"
    unfolding stripPrefix_Some s ..
  have tw: "takeWhile (\<lambda>c. c \<noteq> CHR '')'') ?s1 = g1"
    using g1(2) by (subst takeWhile_append2) auto
  have dw: "dropWhile (\<lambda>c. c \<noteq> CHR '')'') ?s1 = CHR '')'' # ?r2"
    using g1(2) by (subst dropWhile_append2) auto
  have "dropWhile isSpace ?r2 = ''format('' @ ?r4"
    using ws by (subst dropWhile_append2) auto
  then have r4: "stripPrefix ''format('' (dropWhile isSpace ?r2) = Some ?r4"
    by (simp add: stripPrefix_Some)
  from matchFormatBody_complete [OF q(1) q(4) q(2) q(3), of post]
  obtain y where y: "matchFormatBody ?r4 = Some y" by auto
  show ?thesis
    unfolding matchSrcAt_def s1 option.case Let_def tw dw list.case r4 y
    using g1(1) by (simp split: prod.splits)
qed

lemma matchAllSrc_Nil_iff:
  "matchAllSrc s = [] \<longleftrightarrow> (\<forall>pre t. s = pre @ t \<longrightarrow> matchSrcAt t = None)"
proof (induction s)
  case Nil
  show ?case
    by (subst matchAllSrc.simps) (auto split: option.splits)
next
  case (Cons c cs)
  have "matchAllSrc (c # cs) = [] \<longleftrightarrow> matchSrcAt (c # cs) = None \<and> matchAllSrc cs = []"
    by (subst matchAllSrc.simps) (auto split: option.splits)
  also have "\<dots> \<longleftrightarrow> matchSrcAt (c # cs) = None \<and> (\<forall>pre t. cs = pre @ t \<longrightarrow> matchSrcAt t = None)"
    by (simp only: Cons.IH)
  also have "\<dots> \<longleftrightarrow> (\<forall>pre t. c # cs = pre @ t \<longrightarrow> matchSrcAt t = None)"
    by (auto simp: Cons_eq_append_conv)
  finally show ?case .
qed

lemma matchAllSrc_empty_iff: "matchAllSrc src = [] \<longleftrightarrow> \<not> containsUrlFormat src"
proof
  assume e: "matchAllSrc src = []"
  show "\<not> containsUrlFormat src"
  proof
    assume "containsUrlFormat src"
    then obtain pre m post g1 g2 where "src = pre @ m @ post" "matchesPattern m g1 g2"
      unfolding containsUrlFormat_def by blast
    with matchSrcAt_complete [of m g1 g2 post] e show False
      by (auto simp: matchAllSrc_Nil_iff)
  qed
next
  assume n: "\<not> containsUrlFormat src"
  show "matchAllSrc src = []"
    unfolding matchAllSrc_Nil_iff
  proof (intro allI impI)
    fix pre t
    assume src: "src = pre @ t"
    show "matchSrcAt t = None"
    proof (cases "matchSrcAt t")
      case (Some x)
      obtain g1 g2 rest where "x = ((g1, g2), rest)" by (cases x) auto
      with Some matchSrcAt_sound obtain m where "t = m @ rest" "matchesPattern m g1 g2"
        by blast
      with src n show ?thesis unfolding containsUrlFormat_def by blast
    qed simp
  qed
qed

lemma matchSrcAt_needs_format:
  assumes "matchSrcAt s = Some x"
  shows "sublist ''format('' s"
proof -
  from assms obtain s1 c r2 r4 where
    s1: "stripPrefix ''url('' s = Some s1"
    and r2: "dropWhile (\<lambda>c. c \<noteq> CHR '')'') s1 = c # r2"
    and r4: "stripPrefix ''format('' (dropWhile isSpace r2) = Some r4"
    by (auto simp: matchSrcAt_def Let_def split: option.splits if_splits list.splits)
  from s1 have "s = ''url('' @ s1"
    by (auto simp: stripPrefix_def prefix_def split: if_splits)
  moreover have "s1 = takeWhile (\<lambda>c. c \<noteq> CHR '')'') s1 @ c # r2"
    using r2 by (metis takeWhile_dropWhile_id)
  moreover have "r2 = takeWhile isSpace r2 @ dropWhile isSpace r2"
    by simp
  moreover from r4 have "dropWhile isSpace r2 = ''format('' @ r4"
    by (auto simp: stripPrefix_def prefix_def split: if_splits)
  ultimately have "s = (''url('' @ takeWhile (\<lambda>c. c \<noteq> CHR '')'') s1 @ c # takeWhile isSpace r2)
                        @ ''format('' @ r4"
    by (metis append.assoc append_Cons)
  then show ?thesis
    unfolding sublist_def by blast
qed

lemma no_format_no_match:
  "\<not> sublist ''format('' s \<Longrightarrow> matchAllSrc s = []"
proof (induction s)
  case Nil
  then show ?case
    by (subst matchAllSrc.simps) (auto dest: matchSrcAt_needs_format split: option.splits)
next
  case (Cons c cs)
  then have "\<not> sublist ''format('' cs"
    by (auto simp: sublist_Cons_right)
  with Cons.IH have "matchAllSrc cs = []" by simp
  moreover from Cons.prems have "matchSrcAt (c # cs) = None"
    by (cases "matchSrcAt (c # cs)") (auto dest: matchSrcAt_needs_format)
  ultimately show ?case
    by (subst matchAllSrc.simps) simp
qed

text \<open>
  C10, as the claim states it, fails. The \<open>src\<close> of the rule \<open>noFormatRule\<close> has no
  format hint and gives no candidate. Called after the example rule, which has the
  same family, weight, style and unicode range, \<open>inlineFontFace\<close> returns the text
  cached for the example rule, not \<open>null\<close>; and with both rules in a style sheet the
  built CSS holds that text twice.
\<close>

theorem no_candidates_counterexample:
  "matchAllSrc (getPropertyValue noFormatRule ''src'') = []
   \<and> fst (inlineFontFace exampleEnv noFormatRule (snd (inlineFontFace exampleEnv interRule initialState)))
       = Inr (Some interCss)
   \<and> fst (buildFontEmbedCSS twoRuleEnv interRoot initialState)
       = Inr (interCss @ [CHR 0x0A] @ interCss)"
  by code_simp

text \<open>
  C10, amended. When \<open>inlinedFaceCache\<close> holds a non-empty text under the
  declaration's signature, \<open>inlineFontFace\<close> returns that text. When it holds none
  and the \<open>src\<close> contains no \<open>url(...)\<close> followed by \<open>format(...)\<close> (as when it
  has no \<open>format(\<close> at all), there is no candidate,
  \<open>inlineFontFace\<close> returns \<open>null\<close> having done nothing but the cache lookup (no
  fetch, no cache entry written), and the loop of \<open>buildFontEmbedCSS\<close> goes on to
  the next rule with the parts it had.
\<close>

theorem no_candidates_gives_null:
  assumes "s1 = emit (CacheGet InlinedFaceCache (faceCacheKey rule)) s"
  shows "(hit (inlinedFaceCache s (faceCacheKey rule)) = Some c \<longrightarrow>
            inlineFontFace env rule s = (Inr (Some c), s1))
    \<and> (\<not> sublist ''format('' (getPropertyValue rule ''src'') \<longrightarrow>
            \<not> containsUrlFormat (getPropertyValue rule ''src''))
    \<and> (hit (inlinedFaceCache s (faceCacheKey rule)) = None
          \<and> \<not> containsUrlFormat (getPropertyValue rule ''src'') \<longrightarrow>
            parseSrc (getPropertyValue rule ''src'') = []
            \<and> inlineFontFace env rule s = (Inr None, s1)
            \<and> inlineAll env (FontFaceRule rule # rules) parts s = inlineAll env rules parts s1)"
proof (intro conjI impI)
  assume "hit (inlinedFaceCache s (faceCacheKey rule)) = Some c"
  then show "inlineFontFace env rule s = (Inr (Some c), s1)"
    by (simp add: inlineFontFace_hit assms)
next
  assume "\<not> sublist ''format('' (getPropertyValue rule ''src'')"
  then have "matchAllSrc (getPropertyValue rule ''src'') = []"
    by (rule no_format_no_match)
  then show "\<not> containsUrlFormat (getPropertyValue rule ''src'')"
    by (simp add: matchAllSrc_empty_iff)
next
  assume a: "hit (inlinedFaceCache s (faceCacheKey rule)) = None
          \<and> \<not> containsUrlFormat (getPropertyValue rule ''src'')"
  then have m: "matchAllSrc (getPropertyValue rule ''src'') = []"
    by (simp add: matchAllSrc_empty_iff)
  then show p: "parseSrc (getPropertyValue rule ''src'') = []"
    by (simp add: parseSrc_def)
  with a show i: "inlineFontFace env rule s = (Inr None, s1)"
    by (simp add: inlineFontFace_None_iff pick_def assms)
  then show "inlineAll env (FontFaceRule rule # rules) parts s = inlineAll env rules parts s1"
    by (simp add: ruleStyle_def pushIfTruthy_def)
qed

text \<open>The rule without format hint, after the example rule and in the initial state.\<close>

theorem no_candidates_gives_null_witness:
  "inlineFontFace exampleEnv noFormatRule (snd (inlineFontFace exampleEnv interRule initialState))
     = (Inr (Some interCss),
        emit (CacheGet InlinedFaceCache (faceCacheKey noFormatRule))
          (snd (inlineFontFace exampleEnv interRule initialState)))
   \<and> \<not> containsUrlFormat (getPropertyValue noFormatRule ''src'')
   \<and> parseSrc (getPropertyValue noFormatRule ''src'') = []
   \<and> inlineFontFace exampleEnv noFormatRule initialState
       = (Inr None, emit (CacheGet InlinedFaceCache (faceCacheKey noFormatRule)) initialState)
   \<and> inlineAll exampleEnv [FontFaceRule noFormatRule] [] initialState
       = inlineAll exampleEnv [] [] (emit (CacheGet InlinedFaceCache (faceCacheKey noFormatRule)) initialState)"
proof -
  have nf: "\<not> sublist ''format('' (getPropertyValue noFormatRule ''src'')"
    by code_simp
  have miss: "hit (inlinedFaceCache initialState (faceCacheKey noFormatRule)) = None"
    by (simp add: initialState_def)
  note t = no_candidates_gives_null [OF refl, of initialState noFormatRule _ exampleEnv "[]" "[]"]
  note none = t [THEN conjunct2, THEN conjunct1, THEN mp, OF nf]
  note null = t [THEN conjunct2, THEN conjunct2, THEN mp, OF conjI [OF miss none]]
  have cached: "hit (inlinedFaceCache (snd (inlineFontFace exampleEnv interRule initialState))
                  (faceCacheKey noFormatRule)) = Some interCss"
    by code_simp
  note again = no_candidates_gives_null
    [OF refl, of "snd (inlineFontFace exampleEnv interRule initialState)" noFormatRule interCss exampleEnv,
     THEN conjunct1, THEN mp, OF cached]
  from again conjI [OF none null] show ?thesis by (rule conjI)
qed

end
